theory Spec2Isabelle
  imports Complex_Main
begin

section \<open>Data model of \<open>src/fft_analysis/audio/stft.py\<close>\<close>

text \<open>
  Samples are Python floats, modelled as exact reals (the normalisation of \<open>istft\<close> is
  modelled a second time on float64 values with overflow, infinities and NaN, where a
  property is about them); integers (\<open>window_size\<close>,
  \<open>hop_length\<close>, lengths, frame counts) are Python's unbounded ints. Every exception
  the module or the numpy/scipy calls it makes can raise is a value of \<open>error\<close>; all of
  them are \<open>ValueError\<close> in Python except \<open>ZeroDivisionError\<close>.
\<close>

datatype error =
    UnsupportedWindowType     \<comment> \<open>\<open>ValueError\<close> raised by \<open>_get_window\<close>\<close>
  | NegativeWindowLength      \<comment> \<open>\<open>ValueError\<close> of scipy's window length guard\<close>
  | ZeroDivisionError         \<comment> \<open>\<open>//\<close> with a zero divisor\<close>
  | NegativeDimensions        \<comment> \<open>\<open>ValueError\<close> of \<open>np.zeros\<close>\<close>
  | BroadcastError            \<comment> \<open>\<open>ValueError\<close>: operands could not be broadcast together\<close>
  | InvalidFFTLength          \<comment> \<open>\<open>ValueError\<close> of \<open>np.fft\<close> on an empty array\<close>

record processor =
  window_size :: int
  hop_length :: int
  window_type :: string
  experiment_id :: int
  date :: string
  window :: "real list"

text \<open>A two-dimensional complex array of shape \<open>(nrows, length cols)\<close>, stored by column.\<close>

record cmatrix =
  nrows :: nat
  cols :: "complex list list"

section \<open>The numpy and scipy primitives the module calls\<close>

text \<open>\<open>np.zeros(n)\<close> and \<open>np.zeros((r, c), dtype=complex128)\<close>.\<close>

definition np_zeros :: "int \<Rightarrow> error + real list" where
  "np_zeros n = (if n < 0 then Inl NegativeDimensions else Inr (replicate (nat n) 0))"

definition np_zeros2 :: "int \<Rightarrow> int \<Rightarrow> error + cmatrix" where
  "np_zeros2 r c =
     (if r < 0 \<or> c < 0 then Inl NegativeDimensions
      else Inr \<lparr>nrows = nat r, cols = replicate (nat c) (replicate (nat r) 0)\<rparr>)"

text \<open>
  Python slicing \<open>a[start:end]\<close>: a negative bound counts from the end, and both bounds
  are clamped to the array.
\<close>

definition slice_bound :: "int \<Rightarrow> nat \<Rightarrow> nat" where
  "slice_bound i n = (if i < 0 then nat (max (i + int n) 0) else min (nat i) n)"

definition py_slice :: "'a list \<Rightarrow> int \<Rightarrow> int \<Rightarrow> 'a list" where
  "py_slice xs start end =
     (let s = slice_bound start (length xs); e = slice_bound end (length xs)
      in take (e - s) (drop s xs))"

text \<open>
  Elementwise product \<open>a * b\<close> of two one-dimensional arrays, with numpy's broadcasting:
  equal lengths, or one operand of length one.
\<close>

definition np_mul :: "real list \<Rightarrow> real list \<Rightarrow> error + real list" where
  "np_mul a b =
     (if length a = length b then Inr (map2 (*) a b)
      else if length a = 1 then Inr (map (\<lambda>y. hd a * y) b)
      else if length b = 1 then Inr (map (\<lambda>x. x * hd b) a)
      else Inl BroadcastError)"

text \<open>
  In-place \<open>a[start:end] += v\<close>: the right-hand side must broadcast to the shape of the
  slice (same length, or length one).
\<close>

definition np_iadd_slice :: "real list \<Rightarrow> int \<Rightarrow> int \<Rightarrow> real list \<Rightarrow> error + real list" where
  "np_iadd_slice a start end v =
     (let s = slice_bound start (length a); e = slice_bound end (length a);
          m = e - s; mid = take m (drop s a)
      in if length v = m then Inr (take s a @ map2 (+) mid v @ drop (s + m) a)
         else if length v = 1 then Inr (take s a @ map (\<lambda>x. x + hd v) mid @ drop (s + m) a)
         else Inl BroadcastError)"

text \<open>
  Column assignment \<open>m[:, i] = v\<close> for \<open>i\<close> in range: \<open>v\<close> must broadcast to the column.
\<close>

definition set_column :: "cmatrix \<Rightarrow> nat \<Rightarrow> complex list \<Rightarrow> error + cmatrix" where
  "set_column m i v =
     (if length v = nrows m then Inr (m\<lparr>cols := (cols m)[i := v]\<rparr>)
      else if length v = 1 then Inr (m\<lparr>cols := (cols m)[i := replicate (nrows m) (hd v)]\<rparr>)
      else Inl BroadcastError)"

text \<open>
  \<open>np.fft.fft\<close> and \<open>np.fft.ifft\<close>: the discrete Fourier transform of the whole array and
  its inverse (scaled by \<open>1/n\<close>); an empty array is rejected.
\<close>

definition dft_coeff :: "complex list \<Rightarrow> nat \<Rightarrow> complex" where
  "dft_coeff xs k =
     (\<Sum>n\<leftarrow>[0..<length xs]. xs ! n * cis (- (2 * pi * real k * real n / real (length xs))))"

definition idft_coeff :: "complex list \<Rightarrow> nat \<Rightarrow> complex" where
  "idft_coeff ys n =
     (\<Sum>k\<leftarrow>[0..<length ys]. ys ! k * cis (2 * pi * real k * real n / real (length ys)))
       / of_nat (length ys)"

definition np_fft :: "real list \<Rightarrow> error + complex list" where
  "np_fft xs =
     (if xs = [] then Inl InvalidFFTLength
      else Inr (map (dft_coeff (map complex_of_real xs)) [0..<length xs]))"

definition np_ifft :: "complex list \<Rightarrow> error + complex list" where
  "np_ifft ys =
     (if ys = [] then Inl InvalidFFTLength
      else Inr (map (idft_coeff ys) [0..<length ys]))"

text \<open>
  \<open>scipy.signal.get_window(name, Nx)\<close> for the four names the module admits, in its
  default periodic form (\<open>fftbins=True\<close>). scipy is a library the module imports, so the
  coefficients are modelled from its documentation: a negative length is rejected, a
  length of at most one gives all ones, and otherwise
  hann is \<open>0.5 - 0.5 cos(2\<pi>n/M)\<close>, hamming \<open>0.54 - 0.46 cos(2\<pi>n/M)\<close>,
  blackman \<open>0.42 - 0.5 cos(2\<pi>n/M) + 0.08 cos(4\<pi>n/M)\<close> and
  bartlett \<open>2n/M\<close> up to the middle and \<open>2 - 2n/M\<close> after it.
\<close>

definition window_coeff :: "string \<Rightarrow> int \<Rightarrow> nat \<Rightarrow> real" where
  "window_coeff name M n =
     (let t = 2 * pi * real n / real_of_int M in
      if name = ''hann'' then 0.5 - 0.5 * cos t
      else if name = ''hamming'' then 0.54 - 0.46 * cos t
      else if name = ''blackman'' then 0.42 - 0.5 * cos t + 0.08 * cos (2 * t)
      else if 2 * int n \<le> M then 2 * real n / real_of_int M
      else 2 - 2 * real n / real_of_int M)"

definition signal_get_window :: "string \<Rightarrow> int \<Rightarrow> error + real list" where
  "signal_get_window name M =
     (if M < 0 then Inl NegativeWindowLength
      else if M \<le> 1 then Inr (replicate (nat M) 1)
      else Inr (map (window_coeff name M) [0..<nat M]))"

section \<open>\<open>STFTProcessor\<close>\<close>

definition supported_windows :: "string list" where
  "supported_windows = [''hann'', ''hamming'', ''blackman'', ''bartlett'']"

text \<open>\<open>_get_window\<close>, on the two attributes it reads.\<close>

definition get_window :: "string \<Rightarrow> int \<Rightarrow> error + real list" where
  "get_window wtype wsize =
     (if wtype \<notin> set supported_windows then Inl UnsupportedWindowType
      else signal_get_window wtype wsize)"

text \<open>
  \<open>__init__\<close>: stores its arguments, reads the clock (the date string is passed in as
  \<open>today\<close>) and computes the window. It makes no other check.
\<close>

definition init :: "int \<Rightarrow> int \<Rightarrow> string \<Rightarrow> int \<Rightarrow> string \<Rightarrow> error + processor" where
  "init wsize hop wtype eid today =
     (case get_window wtype wsize of
        Inl e \<Rightarrow> Inl e
      | Inr w \<Rightarrow> Inr \<lparr>window_size = wsize, hop_length = hop, window_type = wtype,
                     experiment_id = eid, date = today, window = w\<rparr>)"

text \<open>
  \<open>stft\<close>: the frame count by floor division (Python's \<open>//\<close> rounds down, as \<open>div\<close> on
  \<open>int\<close> does, but raises on a zero divisor), the zero matrix, then the loop over the
  frame indices.
\<close>

fun stft_loop :: "processor \<Rightarrow> real list \<Rightarrow> nat list \<Rightarrow> cmatrix \<Rightarrow> error + cmatrix" where
  "stft_loop p audio [] m = Inr m"
| "stft_loop p audio (i # is) m =
     (let start = int i * hop_length p;
          end = start + window_size p;
          frame = py_slice audio start end
      in case np_mul frame (window p) of
           Inl e \<Rightarrow> Inl e
         | Inr windowed_frame \<Rightarrow>
             (case np_fft windowed_frame of
                Inl e \<Rightarrow> Inl e
              | Inr col \<Rightarrow>
                  (case set_column m i col of
                     Inl e \<Rightarrow> Inl e
                   | Inr m' \<Rightarrow> stft_loop p audio is m')))"

definition num_frames_of :: "processor \<Rightarrow> real list \<Rightarrow> int" where
  "num_frames_of p audio = 1 + (int (length audio) - window_size p) div hop_length p"

definition stft :: "processor \<Rightarrow> real list \<Rightarrow> error + cmatrix" where
  "stft p audio =
     (if hop_length p = 0 then Inl ZeroDivisionError
      else let num_frames = num_frames_of p audio
           in case np_zeros2 (window_size p) num_frames of
                Inl e \<Rightarrow> Inl e
              | Inr m \<Rightarrow> stft_loop p audio [0..<nat num_frames] m)"

text \<open>
  \<open>istft\<close>: the two accumulators \<open>output_signal\<close> and \<open>window_sum\<close>, the overlap-add
  loop, then the normalisation with the floor \<open>1e-6\<close>.
\<close>

fun istft_loop ::
  "processor \<Rightarrow> cmatrix \<Rightarrow> nat list \<Rightarrow> real list \<times> real list \<Rightarrow> error + real list \<times> real list"
where
  "istft_loop p m [] acc = Inr acc"
| "istft_loop p m (i # is) (output_signal, window_sum) =
     (case np_ifft (cols m ! i) of
        Inl e \<Rightarrow> Inl e
      | Inr spectrum \<Rightarrow>
          (case np_mul (map Re spectrum) (window p) of
             Inl e \<Rightarrow> Inl e
           | Inr frame \<Rightarrow>
               (let start = int i * hop_length p;
                    end = start + window_size p
                in case np_iadd_slice output_signal start end frame of
                     Inl e \<Rightarrow> Inl e
                   | Inr output_signal' \<Rightarrow>
                       (case np_iadd_slice window_sum start end (window p) of
                          Inl e \<Rightarrow> Inl e
                        | Inr window_sum' \<Rightarrow>
                            istft_loop p m is (output_signal', window_sum')))))"

definition expected_signal_length :: "processor \<Rightarrow> cmatrix \<Rightarrow> int" where
  "expected_signal_length p m =
     (int (length (cols m)) - 1) * hop_length p + window_size p"

definition istft_accumulate :: "processor \<Rightarrow> cmatrix \<Rightarrow> error + real list \<times> real list" where
  "istft_accumulate p m =
     (case np_zeros (expected_signal_length p m) of
        Inl e \<Rightarrow> Inl e
      | Inr zeros \<Rightarrow> istft_loop p m [0..<length (cols m)] (zeros, zeros))"

definition floor_window_sum :: "real list \<Rightarrow> real list" where
  "floor_window_sum window_sum = map (\<lambda>w. if w < 1 / 10 ^ 6 then 1 else w) window_sum"

definition normalize :: "real list \<Rightarrow> real list \<Rightarrow> real list" where
  "normalize output_signal window_sum = map2 (/) output_signal (floor_window_sum window_sum)"

definition istft :: "processor \<Rightarrow> cmatrix \<Rightarrow> error + real list" where
  "istft p m =
     (case istft_accumulate p m of
        Inl e \<Rightarrow> Inl e
      | Inr (output_signal, window_sum) \<Rightarrow> Inr (normalize output_signal window_sum))"

section \<open>A processor used as a concrete input\<close>

text \<open>
  What \<open>STFTProcessor(2, 1, 'hann')\<close> constructs on the day \<open>20240101\<close> (lemma
  \<open>init_hann2\<close> below).
\<close>

definition hann2 :: processor where
  "hann2 = \<lparr>window_size = 2, hop_length = 1, window_type = ''hann'',
            experiment_id = 1, date = ''20240101'', window = [0, 1]\<rparr>"


section \<open>The forward path as the specification words it\<close>

text \<open>
  Frame \<open>i\<close>: \<open>window_size\<close> consecutive samples starting at sample \<open>i * hop_length\<close>;
  column \<open>i\<close>: the forward transform of that frame multiplied by the window.
\<close>

definition spec_frame :: "processor \<Rightarrow> real list \<Rightarrow> nat \<Rightarrow> real list" where
  "spec_frame p audio i = take (nat (window_size p)) (drop (i * nat (hop_length p)) audio)"

definition spec_column :: "processor \<Rightarrow> real list \<Rightarrow> nat \<Rightarrow> complex list" where
  "spec_column p audio i =
     map (dft_coeff (map complex_of_real (map2 (*) (spec_frame p audio i) (window p))))
       [0..<nat (window_size p)]"

section \<open>The inverse path as the specification words it\<close>

text \<open>
  The time frame of column \<open>i\<close>: the real part of its inverse transform, multiplied
  elementwise by the window. Frame \<open>i\<close> covers the output positions from
  \<open>i * hop_length\<close> up to \<open>i * hop_length + window_size\<close> (excluded).
  \<open>signal_accum\<close> at position \<open>j\<close> is the sum, over the frames that cover \<open>j\<close>, of the
  frame's entry at \<open>j - i * hop_length\<close>; \<open>window_energy_accum\<close> is the same sum of the raw
  window coefficients.
\<close>

definition spec_time_frame :: "processor \<Rightarrow> cmatrix \<Rightarrow> nat \<Rightarrow> real list" where
  "spec_time_frame p m i =
     map2 (*) (map (\<lambda>n. Re (idft_coeff (cols m ! i) n)) [0..<nat (window_size p)]) (window p)"

definition covers :: "processor \<Rightarrow> nat \<Rightarrow> nat \<Rightarrow> bool" where
  "covers p i j \<longleftrightarrow>
     i * nat (hop_length p) \<le> j \<and> j < i * nat (hop_length p) + nat (window_size p)"

definition spec_signal_accum :: "processor \<Rightarrow> cmatrix \<Rightarrow> nat \<Rightarrow> real" where
  "spec_signal_accum p m j =
     (\<Sum>i\<leftarrow>[0..<length (cols m)].
        if covers p i j then spec_time_frame p m i ! (j - i * nat (hop_length p)) else 0)"

definition spec_window_energy_accum :: "processor \<Rightarrow> cmatrix \<Rightarrow> nat \<Rightarrow> real" where
  "spec_window_energy_accum p m j =
     (\<Sum>i\<leftarrow>[0..<length (cols m)].
        if covers p i j then window p ! (j - i * nat (hop_length p)) else 0)"

text \<open>Adding \<open>v\<close> into \<open>a\<close> at offset \<open>s\<close>, and the sum of what a list of frames adds at \<open>j\<close>.\<close>

definition add_at :: "real list \<Rightarrow> nat \<Rightarrow> real list \<Rightarrow> real list" where
  "add_at a s v =
     map (\<lambda>j. a ! j + (if s \<le> j \<and> j < s + length v then v ! (j - s) else 0)) [0..<length a]"

definition accum_over :: "processor \<Rightarrow> (nat \<Rightarrow> real list) \<Rightarrow> nat list \<Rightarrow> nat \<Rightarrow> real" where
  "accum_over p f is j =
     (\<Sum>i\<leftarrow>is. if covers p i j then f i ! (j - i * nat (hop_length p)) else 0)"

text \<open>
  The inverse transform fails before it has added anything into either buffer: at the
  allocation, or in the first frame no later than its first \<open>+=\<close>.
\<close>

definition fails_before_accumulation :: "processor \<Rightarrow> cmatrix \<Rightarrow> bool" where
  "fails_before_accumulation p m =
     (case np_zeros (expected_signal_length p m) of
        Inl e \<Rightarrow> True
      | Inr zeros \<Rightarrow>
          (case np_ifft (cols m ! 0) of
             Inl e \<Rightarrow> True
           | Inr spectrum \<Rightarrow>
               (case np_mul (map Re spectrum) (window p) of
                  Inl e \<Rightarrow> True
                | Inr frame \<Rightarrow> isl (np_iadd_slice zeros 0 (window_size p) frame))))"

section \<open>Quantities of the round trip\<close>

text \<open>
  The sum of the squared window coefficients that the frames covering position \<open>j\<close>
  place there (each frame is multiplied by the window twice, once in \<open>stft\<close> and once in
  \<open>istft\<close>); the root-mean-square error of two signals on the samples \<open>lo\<close> to \<open>hi\<close>
  (both included); and a signal of 1000 samples, all equal to one.
\<close>

definition window_square_accum :: "processor \<Rightarrow> nat \<Rightarrow> nat \<Rightarrow> real" where
  "window_square_accum p n j =
     (\<Sum>i\<leftarrow>[0..<n]. if covers p i j then (window p ! (j - i * nat (hop_length p)))\<^sup>2 else 0)"

definition rmse_on :: "real list \<Rightarrow> real list \<Rightarrow> nat \<Rightarrow> nat \<Rightarrow> real" where
  "rmse_on a b lo hi =
     sqrt ((\<Sum>j\<leftarrow>[lo..<hi + 1]. (a ! j - b ! j)\<^sup>2) / real (hi + 1 - lo))"

definition ones_signal :: "real list" where
  "ones_signal = replicate 1000 1"

section \<open>\<open>compute_snr\<close>\<close>

text \<open>
  The value \<open>compute_snr\<close> returns is a float64 that may be infinite or not a number:
  numpy's scalar division by zero and logarithm of zero warn and return \<open>inf\<close>, \<open>-inf\<close>
  or \<open>nan\<close>; they do not raise.
\<close>

datatype np_float = Finite real | PosInf | NegInf | NaN

definition np_true_divide :: "real \<Rightarrow> real \<Rightarrow> np_float" where
  "np_true_divide a b =
     (if b \<noteq> 0 then Finite (a / b)
      else if a = 0 then NaN
      else if 0 < a then PosInf
      else NegInf)"

fun np_log10 :: "np_float \<Rightarrow> np_float" where
  "np_log10 (Finite x) = (if 0 < x then Finite (log 10 x) else if x = 0 then NegInf else NaN)"
| "np_log10 PosInf = PosInf"
| "np_log10 NegInf = NaN"
| "np_log10 NaN = NaN"

fun times_ten :: "np_float \<Rightarrow> np_float" where
  "times_ten (Finite x) = Finite (10 * x)"
| "times_ten PosInf = PosInf"
| "times_ten NegInf = NegInf"
| "times_ten NaN = NaN"

definition np_sum_squares :: "real list \<Rightarrow> real" where
  "np_sum_squares xs = sum_list (map (\<lambda>x. x\<^sup>2) xs)"

definition compute_snr :: "real list \<Rightarrow> real list \<Rightarrow> np_float" where
  "compute_snr original_signal reconstructed_signal =
     (let min_length = min (length original_signal) (length reconstructed_signal);
          original_signal' = take min_length original_signal;
          reconstructed_signal' = take min_length reconstructed_signal;
          noise = map2 (-) original_signal' reconstructed_signal'
      in times_ten (np_log10
           (np_true_divide (np_sum_squares original_signal') (np_sum_squares noise))))"

text \<open>
  The two energies as the specification words them: over the samples both signals have,
  the sum of the squared original samples and the sum of the squared differences.
\<close>

definition signal_energy :: "real list \<Rightarrow> real list \<Rightarrow> real" where
  "signal_energy a b = (\<Sum>i<min (length a) (length b). (a ! i)\<^sup>2)"

definition noise_energy :: "real list \<Rightarrow> real list \<Rightarrow> real" where
  "noise_energy a b = (\<Sum>i<min (length a) (length b). (a ! i - b ! i)\<^sup>2)"

section \<open>\<open>istft\<close> on float64 values\<close>

text \<open>
  A float64 is a finite real below the overflow threshold, one of the two infinities, or
  NaN (the type \<open>np_float\<close> above). An operation whose exact result reaches
  \<open>2^1024 - 2^970\<close> in magnitude overflows to an infinity, as IEEE round-to-nearest
  does; the rounding of a result in range and the sign of zero are not modelled.
  \<open>is_finite\<close> is \<open>np.isfinite\<close>.
\<close>

definition float64_overflow :: real where
  "float64_overflow = 2 ^ 1024 - 2 ^ 970"

definition f64 :: "real \<Rightarrow> np_float" where
  "f64 x = (if float64_overflow \<le> x then PosInf
            else if x \<le> - float64_overflow then NegInf
            else Finite x)"

definition is_finite :: "np_float \<Rightarrow> bool" where
  "is_finite x = (case x of Finite a \<Rightarrow> \<bar>a\<bar> < float64_overflow | _ \<Rightarrow> False)"

text \<open>
  Negation, sum, product, quotient and the comparison \<open>x < c\<close> of float64 values, with
  the IEEE results for the infinities and NaN (numpy warns and does not raise):
  \<open>inf - inf\<close>, \<open>inf * 0\<close>, \<open>0 / 0\<close> and \<open>inf / inf\<close> are NaN, a non-zero value over
  zero is an infinity, and every comparison with NaN is false.
\<close>

fun f_neg :: "np_float \<Rightarrow> np_float" where
  "f_neg (Finite a) = Finite (- a)"
| "f_neg PosInf = NegInf"
| "f_neg NegInf = PosInf"
| "f_neg NaN = NaN"

fun f_add :: "np_float \<Rightarrow> np_float \<Rightarrow> np_float" where
  "f_add (Finite a) (Finite b) = f64 (a + b)"
| "f_add NaN y = NaN"
| "f_add x NaN = NaN"
| "f_add PosInf NegInf = NaN"
| "f_add NegInf PosInf = NaN"
| "f_add PosInf y = PosInf"
| "f_add x PosInf = PosInf"
| "f_add NegInf y = NegInf"
| "f_add x NegInf = NegInf"

definition inf_times :: "np_float \<Rightarrow> real \<Rightarrow> np_float" where
  "inf_times i b = (if b = 0 then NaN else if 0 < b then i else f_neg i)"

fun f_mul :: "np_float \<Rightarrow> np_float \<Rightarrow> np_float" where
  "f_mul (Finite a) (Finite b) = f64 (a * b)"
| "f_mul NaN y = NaN"
| "f_mul x NaN = NaN"
| "f_mul PosInf (Finite b) = inf_times PosInf b"
| "f_mul NegInf (Finite b) = inf_times NegInf b"
| "f_mul (Finite a) PosInf = inf_times PosInf a"
| "f_mul (Finite a) NegInf = inf_times NegInf a"
| "f_mul PosInf PosInf = PosInf"
| "f_mul NegInf NegInf = PosInf"
| "f_mul PosInf NegInf = NegInf"
| "f_mul NegInf PosInf = NegInf"

fun f_div :: "np_float \<Rightarrow> np_float \<Rightarrow> np_float" where
  "f_div (Finite a) (Finite b) =
     (if b \<noteq> 0 then f64 (a / b)
      else if a = 0 then NaN else if 0 < a then PosInf else NegInf)"
| "f_div NaN y = NaN"
| "f_div x NaN = NaN"
| "f_div PosInf (Finite b) = (if 0 \<le> b then PosInf else NegInf)"
| "f_div NegInf (Finite b) = (if 0 \<le> b then NegInf else PosInf)"
| "f_div (Finite a) PosInf = Finite 0"
| "f_div (Finite a) NegInf = Finite 0"
| "f_div PosInf PosInf = NaN"
| "f_div PosInf NegInf = NaN"
| "f_div NegInf PosInf = NaN"
| "f_div NegInf NegInf = NaN"

fun f_less :: "np_float \<Rightarrow> real \<Rightarrow> bool" where
  "f_less (Finite a) c = (a < c)"
| "f_less NegInf c = True"
| "f_less PosInf c = False"
| "f_less NaN c = False"

text \<open>
  complex128 as a pair of float64 values, with numpy's componentwise sum, its product
  \<open>(ac - bd, ad + bc)\<close>, and the product with a real factor.
\<close>

type_synonym c128 = "np_float \<times> np_float"

definition c_add :: "c128 \<Rightarrow> c128 \<Rightarrow> c128" where
  "c_add x y = (f_add (fst x) (fst y), f_add (snd x) (snd y))"

definition c_mul :: "c128 \<Rightarrow> c128 \<Rightarrow> c128" where
  "c_mul x y =
     (f_add (f_mul (fst x) (fst y)) (f_neg (f_mul (snd x) (snd y))),
      f_add (f_mul (fst x) (snd y)) (f_mul (snd x) (fst y)))"

definition c_scale :: "real \<Rightarrow> c128 \<Rightarrow> c128" where
  "c_scale r x = (f_mul (fst x) (Finite r), f_mul (snd x) (Finite r))"

text \<open>
  The spectral matrix with float64 entries, and the numpy primitives of \<open>istft\<close> on
  float64 arrays. \<open>np.fft.ifft\<close> adds the terms of the inverse transform in index order
  and scales the sum by \<open>1/n\<close> last; for two entries that is the library's butterfly
  \<open>(a + b, a - b)\<close> followed by the factor \<open>1/2\<close>.
\<close>

record matrix_f64 =
  nrows_f64 :: nat
  cols_f64 :: "c128 list list"

definition np_zeros_f64 :: "int \<Rightarrow> error + np_float list" where
  "np_zeros_f64 n =
     (if n < 0 then Inl NegativeDimensions else Inr (replicate (nat n) (Finite 0)))"

definition idft_f64 :: "c128 list \<Rightarrow> nat \<Rightarrow> c128" where
  "idft_f64 ys n =
     c_scale (1 / real (length ys))
       (foldl c_add (Finite 0, Finite 0)
          (map (\<lambda>k. c_mul (ys ! k)
                       (Finite (cos (2 * pi * real k * real n / real (length ys))),
                        Finite (sin (2 * pi * real k * real n / real (length ys)))))
             [0..<length ys]))"

definition np_ifft_f64 :: "c128 list \<Rightarrow> error + c128 list" where
  "np_ifft_f64 ys =
     (if ys = [] then Inl InvalidFFTLength
      else Inr (map (idft_f64 ys) [0..<length ys]))"

definition np_mul_f64 :: "np_float list \<Rightarrow> np_float list \<Rightarrow> error + np_float list" where
  "np_mul_f64 a b =
     (if length a = length b then Inr (map2 f_mul a b)
      else if length a = 1 then Inr (map (\<lambda>y. f_mul (hd a) y) b)
      else if length b = 1 then Inr (map (\<lambda>x. f_mul x (hd b)) a)
      else Inl BroadcastError)"

definition np_iadd_slice_f64 ::
  "np_float list \<Rightarrow> int \<Rightarrow> int \<Rightarrow> np_float list \<Rightarrow> error + np_float list" where
  "np_iadd_slice_f64 a start end v =
     (let s = slice_bound start (length a); e = slice_bound end (length a);
          m = e - s; mid = take m (drop s a)
      in if length v = m then Inr (take s a @ map2 f_add mid v @ drop (s + m) a)
         else if length v = 1 then Inr (take s a @ map (\<lambda>x. f_add x (hd v)) mid @ drop (s + m) a)
         else Inl BroadcastError)"

text \<open>
  \<open>istft\<close> itself, line by line as above, on float64 values; the window of the processor
  is an array of finite floats.
\<close>

fun istft_loop_f64 ::
  "processor \<Rightarrow> matrix_f64 \<Rightarrow> nat list \<Rightarrow> np_float list \<times> np_float list
     \<Rightarrow> error + np_float list \<times> np_float list"
where
  "istft_loop_f64 p m [] acc = Inr acc"
| "istft_loop_f64 p m (i # is) (output_signal, window_sum) =
     (case np_ifft_f64 (cols_f64 m ! i) of
        Inl e \<Rightarrow> Inl e
      | Inr spectrum \<Rightarrow>
          (case np_mul_f64 (map fst spectrum) (map Finite (window p)) of
             Inl e \<Rightarrow> Inl e
           | Inr frame \<Rightarrow>
               (let start = int i * hop_length p;
                    end = start + window_size p
                in case np_iadd_slice_f64 output_signal start end frame of
                     Inl e \<Rightarrow> Inl e
                   | Inr output_signal' \<Rightarrow>
                       (case np_iadd_slice_f64 window_sum start end (map Finite (window p)) of
                          Inl e \<Rightarrow> Inl e
                        | Inr window_sum' \<Rightarrow>
                            istft_loop_f64 p m is (output_signal', window_sum')))))"

definition istft_accumulate_f64 ::
  "processor \<Rightarrow> matrix_f64 \<Rightarrow> error + np_float list \<times> np_float list" where
  "istft_accumulate_f64 p m =
     (case np_zeros_f64 ((int (length (cols_f64 m)) - 1) * hop_length p + window_size p) of
        Inl e \<Rightarrow> Inl e
      | Inr zeros \<Rightarrow> istft_loop_f64 p m [0..<length (cols_f64 m)] (zeros, zeros))"

definition floor_window_sum_f64 :: "np_float list \<Rightarrow> np_float list" where
  "floor_window_sum_f64 window_sum =
     map (\<lambda>w. if f_less w (1 / 10 ^ 6) then Finite 1 else w) window_sum"

definition normalize_f64 :: "np_float list \<Rightarrow> np_float list \<Rightarrow> np_float list" where
  "normalize_f64 output_signal window_sum =
     map2 f_div output_signal (floor_window_sum_f64 window_sum)"

definition istft_f64 :: "processor \<Rightarrow> matrix_f64 \<Rightarrow> error + np_float list" where
  "istft_f64 p m =
     (case istft_accumulate_f64 p m of
        Inl e \<Rightarrow> Inl e
      | Inr (output_signal, window_sum) \<Rightarrow> Inr (normalize_f64 output_signal window_sum))"

text \<open>
  Concrete inputs: the sample \<open>1.5e308\<close>, the complex entry \<open>1.5e308 + 0j\<close>, and what
  \<open>STFTProcessor(4, 1, 'hann')\<close> constructs on the day \<open>20240101\<close> (lemma \<open>init_hann4\<close>
  below).
\<close>

definition big_sample :: real where
  "big_sample = 15 * 10 ^ 307"

definition huge :: c128 where
  "huge = (Finite big_sample, Finite 0)"

definition hann4 :: processor where
  "hann4 = \<lparr>window_size = 4, hop_length = 1, window_type = ''hann'',
            experiment_id = 1, date = ''20240101'', window = [0, 1 / 2, 1, 1 / 2]\<rparr>"

section \<open>Construction\<close>

lemma get_window_unsupported:
  "wtype \<notin> set supported_windows \<Longrightarrow> get_window wtype wsize = Inl UnsupportedWindowType"
  by (simp add: get_window_def)

lemma get_window_supported:
  "wtype \<in> set supported_windows \<Longrightarrow> 0 \<le> wsize \<Longrightarrow>
     \<exists>w. get_window wtype wsize = Inr w \<and> length w = nat wsize"
  by (simp add: get_window_def signal_get_window_def)

text \<open>
  Claim C8. A window type outside \<open>hann, hamming, blackman, bartlett\<close> makes the
  constructor fail with the unsupported-window \<open>ValueError\<close>, whatever the other
  arguments are, so no processor exists on which a transform could be attempted; and
  each of the four listed types is accepted: the constructor never raises that error for
  it, and for any window size a window can have (non-negative) it returns the processor.
\<close>

theorem init_window_type_checked:
  "(wtype \<notin> set supported_windows \<longrightarrow>
      init wsize hop wtype eid today = Inl UnsupportedWindowType)
   \<and> (wtype \<in> set supported_windows \<longrightarrow>
      init wsize hop wtype eid today \<noteq> Inl UnsupportedWindowType
      \<and> (0 \<le> wsize \<longrightarrow> (\<exists>w. length w = nat wsize \<and>
            init wsize hop wtype eid today =
              Inr \<lparr>window_size = wsize, hop_length = hop, window_type = wtype,
                   experiment_id = eid, date = today, window = w\<rparr>)))"
  by (auto simp: init_def get_window_def signal_get_window_def)

theorem init_window_type_checked_witness:
  "init 2048 512 ''kaiser'' 1 ''20240101'' = Inl UnsupportedWindowType
   \<and> init 1 1 ''hann'' 1 ''20240101'' =
       Inr \<lparr>window_size = 1, hop_length = 1, window_type = ''hann'',
            experiment_id = 1, date = ''20240101'', window = [1]\<rparr>"
  using init_window_type_checked [of "''kaiser''" 2048 512 1 "''20240101''"]
    init_window_type_checked [of "''hann''" 1 1 1 "''20240101''"]
  by (simp add: supported_windows_def init_def get_window_def signal_get_window_def)

text \<open>
  Claim C7 (as stated: a non-positive \<open>window_size\<close>, a non-positive \<open>hop_length\<close> or a
  \<open>hop_length\<close> above \<open>window_size\<close> makes construction fail). The constructor has no
  such check: a window size of zero with a hop of zero, a negative hop, and a hop of 5000
  over a window of one sample are all accepted.
\<close>

theorem init_no_size_validation_counterexample:
  "init 0 0 ''hann'' 1 ''20240101'' =
     Inr \<lparr>window_size = 0, hop_length = 0, window_type = ''hann'',
          experiment_id = 1, date = ''20240101'', window = []\<rparr>
   \<and> init 1 (- 3) ''hann'' 1 ''20240101'' =
     Inr \<lparr>window_size = 1, hop_length = - 3, window_type = ''hann'',
          experiment_id = 1, date = ''20240101'', window = [1]\<rparr>
   \<and> init 1 5000 ''hann'' 1 ''20240101'' =
     Inr \<lparr>window_size = 1, hop_length = 5000, window_type = ''hann'',
          experiment_id = 1, date = ''20240101'', window = [1]\<rparr>"
  by (simp add: init_def get_window_def signal_get_window_def supported_windows_def)

text \<open>
  Claim C7, amended. With a supported window type, construction fails only for a negative
  \<open>window_size\<close> (the \<open>ValueError\<close> of the window generator); for every
  \<open>window_size\<close> of at least zero it succeeds with every \<open>hop_length\<close> whatsoever,
  storing both unchanged.
\<close>

theorem init_accepts_any_hop:
  assumes "wtype \<in> set supported_windows"
  shows "(wsize < 0 \<longrightarrow> init wsize hop wtype eid today = Inl NegativeWindowLength)
       \<and> (0 \<le> wsize \<longrightarrow> (\<exists>w. length w = nat wsize \<and>
             init wsize hop wtype eid today =
               Inr \<lparr>window_size = wsize, hop_length = hop, window_type = wtype,
                    experiment_id = eid, date = today, window = w\<rparr>))"
  using assms by (auto simp: init_def get_window_def signal_get_window_def)

theorem init_accepts_any_hop_witness:
  "''hamming'' \<in> set supported_windows
   \<and> init (- 4) 2 ''hamming'' 7 ''20240101'' = Inl NegativeWindowLength
   \<and> init 1 (- 9) ''hamming'' 7 ''20240101'' =
       Inr \<lparr>window_size = 1, hop_length = - 9, window_type = ''hamming'',
            experiment_id = 7, date = ''20240101'', window = [1]\<rparr>"
  using init_accepts_any_hop [of "''hamming''" "- 4" 2 7 "''20240101''"]
    init_accepts_any_hop [of "''hamming''" 1 "- 9" 7 "''20240101''"]
  by (simp add: supported_windows_def init_def get_window_def signal_get_window_def)

subsection \<open>The example processor is what the constructor builds\<close>

lemma upt_2: "[0..<2] = [0, 1]"
  by (simp add: upt_rec)

lemma init_hann2: "init 2 1 ''hann'' 1 ''20240101'' = Inr hann2"
  by (simp add: init_def get_window_def signal_get_window_def supported_windows_def
      window_coeff_def hann2_def upt_2)

section \<open>The frame count\<close>

lemma floor_div_bounds:
  "0 < (h::int) \<Longrightarrow> (d div h) * h \<le> d \<and> d < (d div h) * h + h"
  using div_mult_mod_eq [of d h] pos_mod_bound [of h d] pos_mod_sign [of h d] by linarith

lemma floor_div_unique:
  assumes "0 < (h::int)" "q * h \<le> d" "d < q * h + h"
  shows "d div h = q"
proof -
  have "d = q * h + (d - q * h)" by simp
  moreover have "0 \<le> d - q * h" "d - q * h < h" using assms by auto
  ultimately show ?thesis
    by (metis assms(1) div_pos_pos_trivial div_mult_self3 add.commute add.right_neutral less_irrefl)
qed

text \<open>
  Claim C3 (as stated: every signal shorter than \<open>window_size\<close> makes \<open>stft\<close> fail, never
  returning zero frames). \<open>stft\<close> has no length check: a one-sample signal under a
  two-sample window with hop one gives a frame count of \<open>1 + (-1) // 1 = 0\<close>, and the
  empty \<open>2 \<times> 0\<close> matrix is returned.
\<close>

theorem stft_short_counterexample:
  "init 2 1 ''hann'' 1 ''20240101'' = Inr hann2
   \<and> stft hann2 [1] = Inr \<lparr>nrows = 2, cols = []\<rparr>"
  by (simp add: init_hann2) (simp add: stft_def hann2_def num_frames_of_def np_zeros2_def)

text \<open>
  Claim C3, amended. With a positive hop, a signal shorter than \<open>window_size - hop_length\<close>
  makes \<open>stft\<close> fail when the matrix is allocated (the frame count is negative, and
  \<open>np.zeros\<close> raises \<open>ValueError\<close>), with no partial result; a signal of length at least
  \<open>window_size - hop_length\<close> but below \<open>window_size\<close> gives a frame count of zero and
  the empty matrix of \<open>window_size\<close> rows and no columns.
\<close>

theorem stft_short:
  assumes "0 < hop_length p" "int (length audio) < window_size p"
  shows "stft p audio =
           (if int (length audio) < window_size p - hop_length p then Inl NegativeDimensions
            else Inr \<lparr>nrows = nat (window_size p), cols = []\<rparr>)"
proof -
  let ?d = "int (length audio) - window_size p"
  let ?q = "?d div hop_length p"
  have b: "?q * hop_length p \<le> ?d" "?d < ?q * hop_length p + hop_length p"
    using floor_div_bounds [OF assms(1), of ?d] by auto
  show ?thesis
  proof (cases "int (length audio) < window_size p - hop_length p")
    case True
    have "?q < - 1"
    proof (rule ccontr)
      assume "\<not> ?q < - 1"
      then have "- 1 * hop_length p \<le> ?q * hop_length p"
        using assms(1) by (intro mult_right_mono) auto
      with b True show False by linarith
    qed
    then show ?thesis using assms True
      by (simp add: stft_def num_frames_of_def np_zeros2_def)
  next
    case False
    have "?q = - 1"
      using assms False by (intro floor_div_unique) auto
    then show ?thesis using assms False
      by (simp add: stft_def num_frames_of_def np_zeros2_def)
  qed
qed

theorem stft_short_witness:
  "stft hann2 [1] = Inr \<lparr>nrows = 2, cols = []\<rparr>
   \<and> stft hann2 [] = Inl NegativeDimensions"
  using stft_short [of hann2 "[1]"] stft_short [of hann2 "[]"]
  by (simp add: hann2_def)

section \<open>The forward transform\<close>

lemma py_slice_inside:
  assumes "0 \<le> s" "0 \<le> w" "s + w \<le> int (length xs)"
  shows "py_slice xs s (s + w) = take (nat w) (drop (nat s) xs)"
proof -
  have "slice_bound s (length xs) = nat s" "slice_bound (s + w) (length xs) = nat (s + w)"
    using assms by (auto simp: slice_bound_def)
  moreover have "nat (s + w) - nat s = nat w" using assms by auto
  ultimately show ?thesis by (simp add: py_slice_def)
qed

lemma py_slice_frame:
  assumes "0 \<le> hop_length p" "0 \<le> window_size p"
    "int i * hop_length p + window_size p \<le> int (length audio)"
  shows "py_slice audio (int i * hop_length p) (int i * hop_length p + window_size p)
           = spec_frame p audio i"
proof -
  have "nat (int i * hop_length p) = i * nat (hop_length p)"
    using assms(1) by (simp add: nat_mult_distrib)
  then show ?thesis
    using py_slice_inside [of "int i * hop_length p" "window_size p" audio] assms
    by (simp add: spec_frame_def)
qed

lemma length_spec_frame:
  assumes "0 \<le> hop_length p" "0 \<le> window_size p"
    "int i * hop_length p + window_size p \<le> int (length audio)"
  shows "length (spec_frame p audio i) = nat (window_size p)"
proof -
  have eq: "nat (int i * hop_length p) = i * nat (hop_length p)"
    using assms(1) by (simp add: nat_mult_distrib)
  have nn: "0 \<le> int i * hop_length p" using assms(1) by simp
  have "nat (int i * hop_length p) + nat (window_size p) \<le> length audio"
    using nn assms(2,3) by linarith
  then show ?thesis using eq by (simp add: spec_frame_def)
qed

lemma stft_step:
  assumes "0 < window_size p" "0 \<le> hop_length p" "length (window p) = nat (window_size p)"
    "nrows m = nat (window_size p)"
    "int i * hop_length p + window_size p \<le> int (length audio)"
  shows "np_mul (py_slice audio (int i * hop_length p) (int i * hop_length p + window_size p))
            (window p) = Inr (map2 (*) (spec_frame p audio i) (window p))"
    and "np_fft (map2 (*) (spec_frame p audio i) (window p)) = Inr (spec_column p audio i)"
    and "set_column m i (spec_column p audio i) = Inr (m\<lparr>cols := (cols m)[i := spec_column p audio i]\<rparr>)"
proof -
  have len: "length (spec_frame p audio i) = nat (window_size p)"
    using length_spec_frame assms by simp
  show "np_mul (py_slice audio (int i * hop_length p) (int i * hop_length p + window_size p))
            (window p) = Inr (map2 (*) (spec_frame p audio i) (window p))"
    using py_slice_frame [of p i audio] assms len by (simp add: np_mul_def)
  have "length (map2 (*) (spec_frame p audio i) (window p)) = nat (window_size p)"
    using len assms(3) by simp
  moreover have "nat (window_size p) \<noteq> 0" using assms(1) by simp
  ultimately show "np_fft (map2 (*) (spec_frame p audio i) (window p)) = Inr (spec_column p audio i)"
    unfolding np_fft_def spec_column_def by (metis length_0_conv)
  show "set_column m i (spec_column p audio i) = Inr (m\<lparr>cols := (cols m)[i := spec_column p audio i]\<rparr>)"
    using assms(4) by (simp add: set_column_def spec_column_def)
qed

lemma stft_loop_cols:
  assumes "0 < window_size p" "0 \<le> hop_length p" "length (window p) = nat (window_size p)"
    "nrows m = nat (window_size p)"
    "\<forall>i\<in>set is. i < length (cols m) \<and> int i * hop_length p + window_size p \<le> int (length audio)"
    "distinct is"
  shows "\<exists>m'. stft_loop p audio is m = Inr m' \<and> nrows m' = nrows m
           \<and> length (cols m') = length (cols m)
           \<and> (\<forall>i<length (cols m). cols m' ! i =
                 (if i \<in> set is then spec_column p audio i else cols m ! i))"
  using assms(4-6)
proof (induction "is" arbitrary: m)
  case Nil
  then show ?case by simp
next
  case (Cons i "is")
  let ?m1 = "m\<lparr>cols := (cols m)[i := spec_column p audio i]\<rparr>"
  have fit: "int i * hop_length p + window_size p \<le> int (length audio)" "i < length (cols m)"
    using Cons.prems(2) by auto
  have step: "stft_loop p audio (i # is) m = stft_loop p audio is ?m1"
    using stft_step [OF assms(1-3) Cons.prems(1) fit(1)] by (simp add: Let_def)
  have "\<exists>m'. stft_loop p audio is ?m1 = Inr m' \<and> nrows m' = nrows ?m1
           \<and> length (cols m') = length (cols ?m1)
           \<and> (\<forall>j<length (cols ?m1). cols m' ! j =
                 (if j \<in> set is then spec_column p audio j else cols ?m1 ! j))"
    using Cons.prems by (intro Cons.IH) auto
  then obtain m' where m': "stft_loop p audio is ?m1 = Inr m'" "nrows m' = nrows m"
    "length (cols m') = length (cols m)"
    "\<forall>j<length (cols m). cols m' ! j =
                 (if j \<in> set is then spec_column p audio j else cols ?m1 ! j)"
    by auto
  have "\<forall>j<length (cols m). cols m' ! j =
          (if j \<in> set (i # is) then spec_column p audio j else cols m ! j)"
    using m'(4) fit(2) by (auto simp: nth_list_update)
  with m' step show ?case by auto
qed

lemma frame_fits:
  assumes "0 < h" "(w::int) \<le> l" "int i < 1 + (l - w) div h"
  shows "int i * h + w \<le> l"
proof -
  have "int i \<le> (l - w) div h" using assms(3) by simp
  then have "int i * h \<le> ((l - w) div h) * h"
    using assms(1) by (intro mult_right_mono) auto
  also have "\<dots> \<le> l - w" using floor_div_bounds [OF assms(1)] by simp
  finally show ?thesis by simp
qed

text \<open>
  Claim C2. For a processor with positive \<open>window_size\<close> \<open>W\<close> and positive
  \<open>hop_length\<close> \<open>H\<close> (and the window that goes with \<open>W\<close>), every signal of length
  \<open>L \<ge> W\<close> is transformed without error into a matrix with exactly
  \<open>1 + floor((L - W) / H)\<close> columns and \<open>W\<close> rows (each column has \<open>W\<close> entries), and
  column \<open>i\<close> is the forward transform \<open>np.fft.fft\<close> of the elementwise product of the
  window with the \<open>W\<close> samples starting at sample \<open>i * H\<close>.
\<close>

theorem stft_shape_and_columns:
  assumes "0 < window_size p" "0 < hop_length p" "length (window p) = nat (window_size p)"
    "window_size p \<le> int (length audio)"
  shows "\<exists>m. stft p audio = Inr m
           \<and> int (length (cols m)) = 1 + (int (length audio) - window_size p) div hop_length p
           \<and> int (nrows m) = window_size p
           \<and> (\<forall>c\<in>set (cols m). int (length c) = window_size p)
           \<and> (\<forall>i<length (cols m).
                 np_fft (map2 (*) (take (nat (window_size p)) (drop (i * nat (hop_length p)) audio))
                           (window p)) = Inr (cols m ! i))"
proof -
  let ?n = "num_frames_of p audio"
  let ?m0 = "\<lparr>nrows = nat (window_size p),
              cols = replicate (nat ?n) (replicate (nat (window_size p)) (0::complex))\<rparr>"
  have n1: "1 \<le> ?n"
    using assms(2,4) by (simp add: num_frames_of_def pos_imp_zdiv_nonneg_iff)
  have z: "np_zeros2 (window_size p) ?n = Inr ?m0"
    using n1 assms(1) by (simp add: np_zeros2_def)
  have fits: "\<forall>i\<in>set [0..<nat ?n]. i < length (cols ?m0)
                \<and> int i * hop_length p + window_size p \<le> int (length audio)"
  proof
    fix i assume "i \<in> set [0..<nat ?n]"
    then have i: "int i < 1 + (int (length audio) - window_size p) div hop_length p"
      by (simp add: num_frames_of_def)
    show "i < length (cols ?m0) \<and> int i * hop_length p + window_size p \<le> int (length audio)"
      using frame_fits [OF assms(2,4) i] i by (simp add: num_frames_of_def)
  qed
  obtain m' where m': "stft_loop p audio [0..<nat ?n] ?m0 = Inr m'" "nrows m' = nrows ?m0"
    "length (cols m') = length (cols ?m0)"
    "\<forall>i<length (cols ?m0). cols m' ! i =
         (if i \<in> set [0..<nat ?n] then spec_column p audio i else cols ?m0 ! i)"
    using stft_loop_cols [OF assms(1) _ assms(3) _ fits, of] assms(2) by auto
  have res: "stft p audio = Inr m'"
    using assms(2) z m'(1) by (simp add: stft_def Let_def)
  have cols: "\<forall>i<length (cols m'). cols m' ! i = spec_column p audio i"
    using m'(3,4) by simp
  have fft: "\<forall>i<length (cols m'). np_fft (map2 (*) (spec_frame p audio i) (window p)) = Inr (cols m' ! i)"
  proof (intro allI impI)
    fix i assume i: "i < length (cols m')"
    then have "i \<in> set [0..<nat ?n]" using m'(3) by simp
    then have "int i * hop_length p + window_size p \<le> int (length audio)" using fits by blast
    then show "np_fft (map2 (*) (spec_frame p audio i) (window p)) = Inr (cols m' ! i)"
      using stft_step(2) [OF assms(1) _ assms(3), of ?m0 i audio] assms(2) cols i by simp
  qed
  have lens: "\<forall>c\<in>set (cols m'). int (length c) = window_size p"
  proof
    fix c assume "c \<in> set (cols m')"
    then obtain i where "i < length (cols m')" "c = cols m' ! i" by (metis in_set_conv_nth)
    then show "int (length c) = window_size p"
      using cols assms(1) by (simp add: spec_column_def)
  qed
  show ?thesis
    using res m'(2,3) n1 assms(1) fft lens
    by (auto simp: num_frames_of_def spec_frame_def)
qed

theorem stft_shape_and_columns_witness:
  "\<exists>m. stft hann2 [1, 2, 3] = Inr m \<and> length (cols m) = 2 \<and> nrows m = 2"
  using stft_shape_and_columns [of hann2 "[1, 2, 3]"]
  by (auto simp: hann2_def)

subsection \<open>Samples after the last frame\<close>

lemma stft_loop_cong:
  assumes "\<forall>i\<in>set is. py_slice a (int i * hop_length p) (int i * hop_length p + window_size p)
                      = py_slice b (int i * hop_length p) (int i * hop_length p + window_size p)"
  shows "stft_loop p a is m = stft_loop p b is m"
  using assms
proof (induction "is" arbitrary: m)
  case Nil
  then show ?case by simp
next
  case (Cons i "is")
  then show ?case by (simp add: Let_def split: sum.splits)
qed

lemma take_drop_of_prefix:
  assumes "s + w \<le> k"
  shows "take w (drop s (take k xs)) = take w (drop s xs)"
proof -
  have "min w (k - s) = w" using assms by simp
  then show ?thesis by (simp add: drop_take)
qed

lemma spec_frame_of_prefix:
  assumes "0 \<le> hop_length p" "0 \<le> window_size p"
    "int i * hop_length p + window_size p \<le> int k"
  shows "spec_frame p (take k a) i = spec_frame p a i"
proof -
  have eq: "nat (int i * hop_length p) = i * nat (hop_length p)"
    using assms(1) by (simp add: nat_mult_distrib)
  have nn: "0 \<le> int i * hop_length p" using assms(1) by simp
  have "nat (int i * hop_length p) + nat (window_size p) \<le> k"
    using nn assms(2,3) by linarith
  then show ?thesis
    using eq take_drop_of_prefix [of "i * nat (hop_length p)" "nat (window_size p)" k a]
    by (simp add: spec_frame_def)
qed

lemma neg_div_zero:
  assumes "(h::int) < 0" "0 \<le> d" "0 \<le> d div h"
  shows "d = 0"
proof (rule ccontr)
  assume "d \<noteq> 0"
  then have "0 < d" using assms(2) by simp
  then have "d div h < 0" using assms(1) by (simp add: neg_imp_zdiv_neg_iff)
  with assms(3) show False by simp
qed

text \<open>
  Claim C10. With \<open>n\<close> the frame count, \<open>stft\<close> reads only the first
  \<open>(n - 1) * hop_length + window_size\<close> samples: two signals of the same length
  \<open>L \<ge> window_size\<close> that agree on those samples have the same result (the same matrix,
  or the same error), whatever follows them. Nothing in the result tells that trailing
  samples were left out.
\<close>

theorem stft_ignores_tail:
  assumes "length a = length b" "window_size p \<le> int (length a)"
    "take (nat ((num_frames_of p a - 1) * hop_length p + window_size p)) a
       = take (nat ((num_frames_of p a - 1) * hop_length p + window_size p)) b"
  shows "stft p a = stft p b"
proof -
  let ?n = "num_frames_of p a"
  let ?K = "nat ((?n - 1) * hop_length p + window_size p)"
  have nf: "num_frames_of p b = ?n" using assms(1) by (simp add: num_frames_of_def)
  have loop: "stft_loop p a [0..<nat ?n] m = stft_loop p b [0..<nat ?n] m"
    if "hop_length p \<noteq> 0" "0 \<le> window_size p" for m
  proof (cases "0 < hop_length p")
    case True
    have n1: "1 \<le> ?n"
      using True assms(2) by (simp add: num_frames_of_def pos_imp_zdiv_nonneg_iff)
    have Kle: "(?n - 1) * hop_length p + window_size p \<le> int (length a)"
      using floor_div_bounds [OF True, of "int (length a) - window_size p"]
      by (simp add: num_frames_of_def)
    have K0: "0 \<le> (?n - 1) * hop_length p + window_size p"
      using n1 True that(2) by simp
    show ?thesis
    proof (rule stft_loop_cong, rule ballI)
      fix i assume "i \<in> set [0..<nat ?n]"
      then have "int i \<le> ?n - 1" by auto
      then have "int i * hop_length p \<le> (?n - 1) * hop_length p"
        using True by (intro mult_right_mono) auto
      then have le: "int i * hop_length p + window_size p \<le> int ?K"
        using K0 by simp
      have fit: "int i * hop_length p + window_size p \<le> int (length c)"
        if "length c = length a" for c :: "real list"
        using le Kle K0 that by simp
      have "py_slice a (int i * hop_length p) (int i * hop_length p + window_size p)
              = spec_frame p (take ?K a) i"
        using py_slice_frame [of p i a] spec_frame_of_prefix [of p i ?K a] True that(2) le fit
        by simp
      also have "\<dots> = spec_frame p (take ?K b) i" using assms(3) by simp
      also have "\<dots> = py_slice b (int i * hop_length p) (int i * hop_length p + window_size p)"
        using py_slice_frame [of p i b] spec_frame_of_prefix [of p i ?K b] True that(2) le
          fit [of b] assms(1)
        by simp
      finally show "py_slice a (int i * hop_length p) (int i * hop_length p + window_size p)
              = py_slice b (int i * hop_length p) (int i * hop_length p + window_size p)" .
    qed
  next
    case False
    then have neg: "hop_length p < 0" using that(1) by simp
    show ?thesis
    proof (cases "1 \<le> ?n")
      case True
      then have "0 \<le> (int (length a) - window_size p) div hop_length p"
        by (simp add: num_frames_of_def)
      then have d0: "int (length a) - window_size p = 0"
        using neg_div_zero [OF neg, of "int (length a) - window_size p"] assms(2) by simp
      then have "?n = 1" by (simp add: num_frames_of_def)
      then have "?K = length a" using d0 by simp
      then have "a = b" using assms(1,3) by simp
      then show ?thesis by simp
    next
      case False
      then have "nat ?n = 0" by simp
      then show ?thesis by simp
    qed
  qed
  show ?thesis
  proof (cases "hop_length p = 0 \<or> window_size p < 0")
    case True
    then show ?thesis by (auto simp: stft_def np_zeros2_def Let_def nf)
  next
    case False
    then show ?thesis using loop
      by (auto simp: stft_def Let_def nf split: sum.splits)
  qed
qed

theorem stft_ignores_tail_witness:
  "stft (hann2\<lparr>hop_length := 2\<rparr>) [1, 2, 3, 4, 5] = stft (hann2\<lparr>hop_length := 2\<rparr>) [1, 2, 3, 4, 9]"
  using stft_ignores_tail [of "[1, 2, 3, 4, 5]" "[1, 2, 3, 4, 9]" "hann2\<lparr>hop_length := 2\<rparr>"]
  by (simp add: hann2_def num_frames_of_def)

section \<open>The inverse transform\<close>

lemma length_add_at: "length (add_at a s v) = length a"
  by (simp add: add_at_def)

lemma nth_add_at:
  "j < length a \<Longrightarrow>
     add_at a s v ! j = a ! j + (if s \<le> j \<and> j < s + length v then v ! (j - s) else 0)"
  by (simp add: add_at_def)

lemma slice_bound_le: "slice_bound i n \<le> n"
  by (auto simp: slice_bound_def)

lemma nth_append3:
  "(xs @ ys @ zs) ! j =
     (if j < length xs then xs ! j
      else if j < length xs + length ys then ys ! (j - length xs)
      else zs ! (j - length xs - length ys))"
  by (auto simp: nth_append)

lemma np_iadd_slice_inside:
  assumes "0 \<le> s" "0 \<le> w" "s + w \<le> int (length a)" "length v = nat w"
  shows "np_iadd_slice a s (s + w) v = Inr (add_at a (nat s) v)"
proof -
  have sb: "slice_bound s (length a) = nat s" "slice_bound (s + w) (length a) = nat (s + w)"
    using assms by (auto simp: slice_bound_def)
  have m: "nat (s + w) - nat s = nat w" using assms by auto
  have fit: "nat s + nat w \<le> length a" using assms by linarith
  define xs where "xs = take (nat s) a"
  define ys where "ys = map2 (+) (take (nat w) (drop (nat s) a)) v"
  define zs where "zs = drop (nat s + nat w) a"
  have res: "np_iadd_slice a s (s + w) v = Inr (xs @ ys @ zs)"
    using assms(4) by (simp add: np_iadd_slice_def sb m Let_def xs_def ys_def zs_def)
  have lx: "length xs = nat s" and ly: "length ys = nat w" and lz: "length zs = length a - (nat s + nat w)"
    using fit assms(4) by (simp_all add: xs_def ys_def zs_def)
  have x: "xs ! j = a ! j" if "j < nat s" for j
    using that by (simp add: xs_def)
  have y: "ys ! k = a ! (nat s + k) + v ! k" if "k < nat w" for k
  proof -
    have "k < length (zip (take (nat w) (drop (nat s) a)) v)"
      using that fit assms(4) by simp
    then show ?thesis using that fit by (simp add: ys_def)
  qed
  have z: "zs ! k = a ! (nat s + nat w + k)" if "nat s + nat w + k < length a" for k
    using that by (simp add: zs_def)
  have "(xs @ ys @ zs) ! j = add_at a (nat s) v ! j" if "j < length a" for j
  proof -
    consider "j < nat s" | "nat s \<le> j" "j < nat s + nat w" | "nat s + nat w \<le> j"
      by linarith
    then show ?thesis
    proof cases
      case 1
      then show ?thesis using that x [of j]
        by (simp add: nth_append3 lx ly nth_add_at)
    next
      case 2
      then have "nat s + (j - nat s) = j" "j - nat s < nat w" by simp_all
      then show ?thesis using 2 that y [of "j - nat s"] assms(4)
        by (simp add: nth_append3 lx ly nth_add_at)
    next
      case 3
      then have "nat s + nat w + (j - nat s - nat w) = j" by simp
      then show ?thesis using 3 that z [of "j - nat s - nat w"] assms(4)
        by (simp add: nth_append3 lx ly nth_add_at)
    qed
  qed
  moreover have "length (xs @ ys @ zs) = length a"
    using fit by (simp add: lx ly lz)
  ultimately have "xs @ ys @ zs = add_at a (nat s) v"
    by (intro nth_equalityI) (simp_all add: length_add_at)
  with res show ?thesis by simp
qed

lemma accum_over_Nil: "accum_over p f [] j = 0"
  by (simp add: accum_over_def)

lemma accum_over_Cons:
  "accum_over p f (i # is) j =
     (if covers p i j then f i ! (j - i * nat (hop_length p)) else 0) + accum_over p f is j"
  by (simp add: accum_over_def)

lemma spec_signal_accum_over:
  "spec_signal_accum p m j = accum_over p (spec_time_frame p m) [0..<length (cols m)] j"
  by (simp add: spec_signal_accum_def accum_over_def)

lemma spec_window_energy_accum_over:
  "spec_window_energy_accum p m j = accum_over p (\<lambda>i. window p) [0..<length (cols m)] j"
  by (simp add: spec_window_energy_accum_def accum_over_def)

lemma length_spec_time_frame:
  "length (window p) = nat (window_size p) \<Longrightarrow> length (spec_time_frame p m i) = nat (window_size p)"
  by (simp add: spec_time_frame_def)

lemma nth_add_at_frame:
  assumes "0 \<le> hop_length p" "length v = nat (window_size p)" "j < length a"
  shows "add_at a (nat (int i * hop_length p)) v ! j
           = a ! j + (if covers p i j then v ! (j - i * nat (hop_length p)) else 0)"
proof -
  have "nat (int i * hop_length p) = i * nat (hop_length p)"
    using assms(1) by (simp add: nat_mult_distrib)
  then show ?thesis using assms(2,3) by (simp add: nth_add_at covers_def)
qed

lemma istft_step:
  assumes "0 < window_size p" "0 \<le> hop_length p" "length (window p) = nat (window_size p)"
    "length (cols m ! i) = nat (window_size p)"
  shows "np_ifft (cols m ! i) = Inr (map (idft_coeff (cols m ! i)) [0..<nat (window_size p)])"
    and "np_mul (map Re (map (idft_coeff (cols m ! i)) [0..<nat (window_size p)])) (window p)
           = Inr (spec_time_frame p m i)"
proof -
  have "cols m ! i \<noteq> []" using assms(1,4) by auto
  then show "np_ifft (cols m ! i) = Inr (map (idft_coeff (cols m ! i)) [0..<nat (window_size p)])"
    using assms(4) by (simp add: np_ifft_def)
  show "np_mul (map Re (map (idft_coeff (cols m ! i)) [0..<nat (window_size p)])) (window p)
           = Inr (spec_time_frame p m i)"
    using assms(3) by (simp add: np_mul_def spec_time_frame_def o_def)
qed

lemma istft_loop_accum:
  assumes "0 < window_size p" "0 \<le> hop_length p" "length (window p) = nat (window_size p)"
    "\<forall>i\<in>set is. length (cols m ! i) = nat (window_size p)
        \<and> int i * hop_length p + window_size p \<le> int (length out)"
    "length ws = length out"
  shows "istft_loop p m is (out, ws) =
           Inr (map (\<lambda>j. out ! j + accum_over p (spec_time_frame p m) is j) [0..<length out],
                map (\<lambda>j. ws ! j + accum_over p (\<lambda>i. window p) is j) [0..<length out])"
  using assms(4,5)
proof (induction "is" arbitrary: out ws)
  case Nil
  then show ?case by (simp add: accum_over_Nil map_nth) (metis map_nth)
next
  case (Cons i "is")
  let ?s = "int i * hop_length p"
  let ?f = "spec_time_frame p m i"
  let ?o1 = "add_at out (nat ?s) ?f"
  let ?w1 = "add_at ws (nat ?s) (window p)"
  have col: "length (cols m ! i) = nat (window_size p)"
    and fit: "?s + window_size p \<le> int (length out)"
    using Cons.prems(1) by auto
  have s0: "0 \<le> ?s" using assms(2) by simp
  have w0: "0 \<le> window_size p" using assms(1) by simp
  have a1: "np_iadd_slice out ?s (?s + window_size p) ?f = Inr ?o1"
    using np_iadd_slice_inside [OF s0 w0 fit] length_spec_time_frame [OF assms(3)] by simp
  have a2: "np_iadd_slice ws ?s (?s + window_size p) (window p) = Inr ?w1"
    using np_iadd_slice_inside [OF s0 w0, of ws "window p"] fit Cons.prems(2) assms(3) by simp
  have step: "istft_loop p m (i # is) (out, ws) = istft_loop p m is (?o1, ?w1)"
    using istft_step [OF assms(1-3) col] a1 a2 by (simp add: Let_def)
  have IH: "istft_loop p m is (?o1, ?w1) =
      Inr (map (\<lambda>j. ?o1 ! j + accum_over p (spec_time_frame p m) is j) [0..<length ?o1],
           map (\<lambda>j. ?w1 ! j + accum_over p (\<lambda>i. window p) is j) [0..<length ?o1])"
    using Cons.prems by (intro Cons.IH) (auto simp: length_add_at)
  have n1: "?o1 ! j = out ! j + (if covers p i j then ?f ! (j - i * nat (hop_length p)) else 0)"
    if "j < length out" for j
    using that assms(2) length_spec_time_frame [OF assms(3)] by (intro nth_add_at_frame) auto
  have n2: "?w1 ! j = ws ! j + (if covers p i j then window p ! (j - i * nat (hop_length p)) else 0)"
    if "j < length out" for j
    using that assms(2,3) Cons.prems(2) by (intro nth_add_at_frame) auto
  have o: "map (\<lambda>j. ?o1 ! j + accum_over p (spec_time_frame p m) is j) [0..<length ?o1]
         = map (\<lambda>j. out ! j + accum_over p (spec_time_frame p m) (i # is) j) [0..<length out]"
    using n1 by (simp add: length_add_at accum_over_Cons)
  have w: "map (\<lambda>j. ?w1 ! j + accum_over p (\<lambda>i. window p) is j) [0..<length ?o1]
         = map (\<lambda>j. ws ! j + accum_over p (\<lambda>i. window p) (i # is) j) [0..<length out]"
    using n2 by (simp add: length_add_at accum_over_Cons)
  show ?case using step IH o w by simp
qed

lemma expected_signal_length_nonneg:
  assumes "0 \<le> window_size p" "0 \<le> hop_length p" "cols m \<noteq> []"
  shows "0 \<le> expected_signal_length p m"
proof -
  have "0 \<le> int (length (cols m)) - 1" using assms(3) by (cases "cols m") auto
  then have "0 \<le> (int (length (cols m)) - 1) * hop_length p" using assms(2) by simp
  then show ?thesis using assms(1) by (simp add: expected_signal_length_def)
qed

lemma istft_accumulate_ok:
  assumes "0 < window_size p" "0 \<le> hop_length p" "length (window p) = nat (window_size p)"
    "cols m \<noteq> []" "\<forall>c\<in>set (cols m). length c = nat (window_size p)"
  shows "istft_accumulate p m =
           Inr (map (spec_signal_accum p m) [0..<nat (expected_signal_length p m)],
                map (spec_window_energy_accum p m) [0..<nat (expected_signal_length p m)])"
proof -
  let ?L = "nat (expected_signal_length p m)"
  let ?z = "replicate ?L (0::real)"
  have L0: "0 \<le> expected_signal_length p m"
    using expected_signal_length_nonneg assms by simp
  then have z: "np_zeros (expected_signal_length p m) = Inr ?z"
    by (simp add: np_zeros_def)
  have fits: "\<forall>i\<in>set [0..<length (cols m)]. length (cols m ! i) = nat (window_size p)
        \<and> int i * hop_length p + window_size p \<le> int (length ?z)"
  proof
    fix i assume "i \<in> set [0..<length (cols m)]"
    then have i: "i < length (cols m)" by simp
    then have "int i \<le> int (length (cols m)) - 1" by simp
    then have "int i * hop_length p \<le> (int (length (cols m)) - 1) * hop_length p"
      using assms(2) by (intro mult_right_mono) auto
    then have "int i * hop_length p + window_size p \<le> int (length ?z)"
      using L0 by (simp add: expected_signal_length_def)
    then show "length (cols m ! i) = nat (window_size p)
        \<and> int i * hop_length p + window_size p \<le> int (length ?z)"
      using assms(5) i by simp
  qed
  have "istft_loop p m [0..<length (cols m)] (?z, ?z) =
           Inr (map (\<lambda>j. ?z ! j + accum_over p (spec_time_frame p m) [0..<length (cols m)] j) [0..<length ?z],
                map (\<lambda>j. ?z ! j + accum_over p (\<lambda>i. window p) [0..<length (cols m)] j) [0..<length ?z])"
    using fits by (intro istft_loop_accum assms(1-3)) auto
  then have "istft_loop p m [0..<length (cols m)] (?z, ?z) =
           Inr (map (spec_signal_accum p m) [0..<?L], map (spec_window_energy_accum p m) [0..<?L])"
    by (simp add: spec_signal_accum_over spec_window_energy_accum_over cong: map_cong)
  then show ?thesis using z by (simp add: istft_accumulate_def)
qed

lemma length_floor_window_sum: "length (floor_window_sum ws) = length ws"
  by (simp add: floor_window_sum_def)

lemma length_normalize: "length ws = length acc \<Longrightarrow> length (normalize acc ws) = length acc"
  by (simp add: normalize_def length_floor_window_sum)

lemma nth_normalize:
  assumes "length ws = length acc" "j < length acc"
  shows "normalize acc ws ! j = acc ! j / (if ws ! j < 1 / 10 ^ 6 then 1 else ws ! j)"
  using assms by (simp add: normalize_def floor_window_sum_def)

text \<open>
  Claim C5. For a processor with positive \<open>window_size\<close> and a non-negative
  \<open>hop_length\<close>, every matrix with \<open>window_size\<close> rows and at least one column is
  reconstructed without error into a signal of length exactly
  \<open>(frame_count - 1) * hop_length + window_size\<close>. Both accumulators have that length;
  \<open>signal_accum\<close> holds, at each position, the sum over the frames covering it of the
  re-windowed real part of the inverse transform of the frame's column, placed at offset
  \<open>i * hop_length\<close>, and \<open>window_energy_accum\<close> the sum of the raw window coefficients
  placed at the same offsets; the result is the normalisation of the first by the second.
\<close>

theorem istft_overlap_add:
  assumes "0 < window_size p" "0 \<le> hop_length p" "length (window p) = nat (window_size p)"
    "cols m \<noteq> []" "int (nrows m) = window_size p" "\<forall>c\<in>set (cols m). length c = nrows m"
  shows "\<exists>out acc ws. istft_accumulate p m = Inr (acc, ws) \<and> istft p m = Inr out
           \<and> int (length out) = (int (length (cols m)) - 1) * hop_length p + window_size p
           \<and> length acc = length out \<and> length ws = length out
           \<and> (\<forall>j<length out. acc ! j = spec_signal_accum p m j
                               \<and> ws ! j = spec_window_energy_accum p m j)
           \<and> out = normalize acc ws"
proof -
  let ?L = "nat (expected_signal_length p m)"
  let ?acc = "map (spec_signal_accum p m) [0..<?L]"
  let ?ws = "map (spec_window_energy_accum p m) [0..<?L]"
  have c: "\<forall>c\<in>set (cols m). length c = nat (window_size p)"
    using assms(5,6) by auto
  have acc: "istft_accumulate p m = Inr (?acc, ?ws)"
    using istft_accumulate_ok [OF assms(1-4) c] .
  have L0: "0 \<le> expected_signal_length p m"
    using expected_signal_length_nonneg [of p m] assms by simp
  have "istft p m = Inr (normalize ?acc ?ws)"
    using acc by (simp add: istft_def)
  moreover have "int (length (normalize ?acc ?ws))
      = (int (length (cols m)) - 1) * hop_length p + window_size p"
    using L0 by (simp add: length_normalize) (simp add: expected_signal_length_def)
  moreover have "length ?acc = length (normalize ?acc ?ws)" "length ?ws = length (normalize ?acc ?ws)"
    by (simp_all add: length_normalize)
  moreover have "\<forall>j<length (normalize ?acc ?ws). ?acc ! j = spec_signal_accum p m j
                               \<and> ?ws ! j = spec_window_energy_accum p m j"
    by (simp add: length_normalize)
  ultimately show ?thesis using acc by blast
qed

theorem istft_overlap_add_witness:
  "\<exists>out. istft hann2 \<lparr>nrows = 2, cols = [[2, 0], [0, 0]]\<rparr> = Inr out \<and> length out = 3"
  using istft_overlap_add [of hann2 "\<lparr>nrows = 2, cols = [[2, 0], [0, 0]]\<rparr>"]
  by (auto simp: hann2_def)

lemma upt_1: "[0..<1] = [0]"
  by (simp add: upt_rec)

text \<open>
  Claim C9 (as stated: a row count different from \<open>window_size\<close> makes \<open>istft\<close> fail).
  \<open>istft\<close> never compares the two: a matrix of one row under a two-sample window is
  broadcast over the window by \<open>frame * self.window\<close>, and a signal is returned.
\<close>

theorem istft_broadcast_counterexample:
  "istft hann2 \<lparr>nrows = 1, cols = [[5]]\<rparr> = Inr [0, 5]"
  by (simp add: istft_def istft_accumulate_def expected_signal_length_def np_zeros_def hann2_def
      np_ifft_def idft_coeff_def np_mul_def np_iadd_slice_def slice_bound_def upt_2 upt_1 Let_def
      numeral_2_eq_2 normalize_def floor_window_sum_def)

lemma np_iadd_slice_too_long:
  assumes "2 \<le> length v"
  shows "np_iadd_slice a 0 1 v = Inl BroadcastError"
proof -
  have "slice_bound 1 (length a) - slice_bound 0 (length a) \<le> 1"
    by (simp add: slice_bound_def)
  then show ?thesis using assms by (simp add: np_iadd_slice_def Let_def)
qed

lemma istft_first_frame:
  assumes "cols m \<noteq> []" "np_zeros (expected_signal_length p m) = Inr z"
  shows "istft_accumulate p m = istft_loop p m (0 # [1..<length (cols m)]) (z, z)"
proof -
  have "[0..<length (cols m)] = 0 # [1..<length (cols m)]"
    using assms(1) by (simp add: upt_conv_Cons)
  then show ?thesis using assms(2) by (simp add: istft_accumulate_def)
qed

text \<open>
  Claim C9, amended. For a matrix with at least one column whose row count is neither
  \<open>window_size\<close> nor \<open>1\<close>, \<open>istft\<close> fails with a \<open>ValueError\<close> (of the shape
  broadcasting, of the inverse transform on an empty column, or of \<open>np.zeros\<close> on a
  negative length), and it fails before anything has been added into either buffer.
\<close>

theorem istft_row_mismatch:
  assumes "cols m \<noteq> []" "\<forall>c\<in>set (cols m). length c = nrows m"
    "int (nrows m) \<noteq> window_size p" "nrows m \<noteq> 1"
    "length (window p) = nat (window_size p)"
  shows "(istft p m = Inl NegativeDimensions \<or> istft p m = Inl InvalidFFTLength
            \<or> istft p m = Inl BroadcastError)
         \<and> fails_before_accumulation p m"
proof (cases "expected_signal_length p m < 0")
  case True
  then show ?thesis
    by (simp add: istft_def istft_accumulate_def np_zeros_def fails_before_accumulation_def)
next
  case False
  define z where "z = replicate (nat (expected_signal_length p m)) (0::real)"
  have z: "np_zeros (expected_signal_length p m) = Inr z"
    using False by (simp add: np_zeros_def z_def)
  have acc: "istft_accumulate p m = istft_loop p m (0 # [1..<length (cols m)]) (z, z)"
    using istft_first_frame [OF assms(1) z] .
  have r: "length (cols m ! 0) = nrows m"
    using assms(1,2) by (cases "cols m") auto
  show ?thesis
  proof (cases "nrows m = 0")
    case True
    then have "np_ifft (cols m ! 0) = Inl InvalidFFTLength"
      using r by (simp add: np_ifft_def)
    then show ?thesis
      using z acc by (simp add: istft_def fails_before_accumulation_def)
  next
    case False
    then have r2: "2 \<le> nrows m" using assms(4) by simp
    define spectrum where "spectrum = map (idft_coeff (cols m ! 0)) [0..<length (cols m ! 0)]"
    have sp: "np_ifft (cols m ! 0) = Inr spectrum"
      using r r2 by (auto simp: np_ifft_def spectrum_def)
    have ls: "length (map Re spectrum) = nrows m"
      using r by (simp add: spectrum_def)
    have ne: "length (map Re spectrum) \<noteq> length (window p)"
      using ls assms(3,5) r2 by auto
    show ?thesis
    proof (cases "length (window p) = 1")
      case True
      then have w1: "window_size p = 1" using assms(5) by auto
      define frame where "frame = map (\<lambda>x. x * hd (window p)) (map Re spectrum)"
      have mul: "np_mul (map Re spectrum) (window p) = Inr frame"
        using ne True ls r2 by (simp add: np_mul_def frame_def)
      have "2 \<le> length frame" using ls r2 by (simp add: frame_def)
      then have add: "np_iadd_slice z 0 1 frame = Inl BroadcastError"
        by (rule np_iadd_slice_too_long)
      then show ?thesis
        using z acc sp mul w1
        by (simp add: istft_def fails_before_accumulation_def Let_def)
    next
      case False
      then have "np_mul (map Re spectrum) (window p) = Inl BroadcastError"
        using ne ls r2 by (simp add: np_mul_def)
      then show ?thesis
        using z acc sp by (simp add: istft_def fails_before_accumulation_def)
    qed
  qed
qed

theorem istft_row_mismatch_witness:
  "(istft hann2 \<lparr>nrows = 3, cols = [[1, 2, 3]]\<rparr> = Inl NegativeDimensions
      \<or> istft hann2 \<lparr>nrows = 3, cols = [[1, 2, 3]]\<rparr> = Inl InvalidFFTLength
      \<or> istft hann2 \<lparr>nrows = 3, cols = [[1, 2, 3]]\<rparr> = Inl BroadcastError)
   \<and> fails_before_accumulation hann2 \<lparr>nrows = 3, cols = [[1, 2, 3]]\<rparr>"
  using istft_row_mismatch [of "\<lparr>nrows = 3, cols = [[1, 2, 3]]\<rparr>" hann2]
  by (simp add: hann2_def)

section \<open>The round trip \<open>istft (stft signal)\<close>\<close>

subsection \<open>The inverse transform inverts the forward transform\<close>

lemma dft_coeff_sum:
  "dft_coeff xs k = (\<Sum>l<length xs. xs ! l * cis (- (2 * pi * real k * real l / real (length xs))))"
  by (simp add: dft_coeff_def interv_sum_list_conv_sum_set_nat atLeast0LessThan)

lemma idft_coeff_sum:
  "idft_coeff ys n =
     (\<Sum>k<length ys. ys ! k * cis (2 * pi * real k * real n / real (length ys))) / of_nat (length ys)"
  by (simp add: idft_coeff_def interv_sum_list_conv_sum_set_nat atLeast0LessThan)

lemma cis_eq_one_imp:
  assumes "cis t = 1"
  shows "\<exists>n::int. t = of_int n * 2 * pi"
proof -
  have "Re (cis t) = Re 1" using assms by simp
  then have "cos t = 1" by simp
  then show ?thesis by (simp add: cos_one_2pi_int)
qed

lemma root_of_unity_sum:
  fixes N :: nat and d :: int
  assumes "0 < N" "\<not> int N dvd d"
  shows "(\<Sum>k<N. cis (2 * pi * real k * real_of_int d / real N)) = 0"
proof -
  define r where "r = cis (2 * pi * real_of_int d / real N)"
  have pow: "cis (2 * pi * real k * real_of_int d / real N) = r ^ k" for k
    by (simp add: r_def DeMoivre algebra_simps)
  have "r ^ N = cis (2 * pi * real_of_int d)"
    using assms(1) by (simp add: r_def DeMoivre)
  then have rN: "r ^ N = 1" by simp
  have r1: "r \<noteq> 1"
  proof
    assume "r = 1"
    then obtain n :: int where n: "2 * pi * real_of_int d / real N = of_int n * 2 * pi"
      using cis_eq_one_imp unfolding r_def by blast
    then have "(2 * pi) * (real_of_int d / real N) = (2 * pi) * of_int n"
      by (simp add: mult.commute)
    then have "real_of_int d / real N = of_int n"
      using pi_gt_zero by (simp only: mult_cancel_left) auto
    then have "real_of_int d = of_int n * real N" using assms(1) by (simp add: field_simps)
    then have "real_of_int d = real_of_int (n * int N)" by simp
    then have "d = n * int N" using of_int_eq_iff by blast
    then show False using assms(2) by simp
  qed
  have "(\<Sum>k<N. r ^ k) = (r ^ N - 1) / (r - 1)"
    using r1 by (rule geometric_sum)
  then show ?thesis using rN by (simp add: pow)
qed

lemma root_of_unity_sum_diff:
  assumes "n < N" "l < N"
  shows "(\<Sum>k<N. cis (2 * pi * real k * (real n - real l) / real N))
           = (if l = n then of_nat N else 0)"
proof (cases "l = n")
  case True
  then show ?thesis by simp
next
  case False
  have "\<not> int N dvd (int n - int l)"
  proof
    assume "int N dvd (int n - int l)"
    moreover have "int n - int l \<noteq> 0" using False by simp
    ultimately have "int N \<le> \<bar>int n - int l\<bar>"
      using dvd_imp_le_int [of "int n - int l" "int N"] by simp
    then show False using assms by linarith
  qed
  then have "(\<Sum>k<N. cis (2 * pi * real k * real_of_int (int n - int l) / real N)) = 0"
    using assms by (intro root_of_unity_sum) auto
  then show ?thesis using False by simp
qed

lemma idft_dft:
  assumes "n < length xs"
  shows "idft_coeff (map (dft_coeff xs) [0..<length xs]) n = xs ! n"
proof -
  let ?N = "length xs"
  have N0: "0 < ?N" using assms by auto
  have "(\<Sum>k<?N. map (dft_coeff xs) [0..<?N] ! k * cis (2 * pi * real k * real n / real ?N))
      = (\<Sum>k<?N. \<Sum>l<?N. xs ! l * cis (2 * pi * real k * (real n - real l) / real ?N))"
  proof (rule sum.cong [OF refl])
    fix k assume "k \<in> {..<?N}"
    then have nth: "map (dft_coeff xs) [0..<?N] ! k = dft_coeff xs k" by simp
    have c: "cis (- (2 * pi * real k * real l / real ?N)) * cis (2 * pi * real k * real n / real ?N)
        = cis (2 * pi * real k * (real n - real l) / real ?N)" for l
    proof -
      have "- (2 * pi * real k * real l / real ?N) + 2 * pi * real k * real n / real ?N
           = 2 * pi * real k * (real n - real l) / real ?N"
        by (simp add: right_diff_distrib diff_divide_distrib)
      then show ?thesis by (simp only: cis_mult)
    qed
    have "dft_coeff xs k * cis (2 * pi * real k * real n / real ?N)
        = (\<Sum>l<?N. xs ! l * (cis (- (2 * pi * real k * real l / real ?N)) * cis (2 * pi * real k * real n / real ?N)))"
      by (simp only: dft_coeff_sum sum_distrib_right mult.assoc)
    also have "\<dots> = (\<Sum>l<?N. xs ! l * cis (2 * pi * real k * (real n - real l) / real ?N))"
      by (simp only: c)
    finally have "dft_coeff xs k * cis (2 * pi * real k * real n / real ?N)
        = (\<Sum>l<?N. xs ! l * cis (2 * pi * real k * (real n - real l) / real ?N))" .
    then show "map (dft_coeff xs) [0..<?N] ! k * cis (2 * pi * real k * real n / real ?N)
        = (\<Sum>l<?N. xs ! l * cis (2 * pi * real k * (real n - real l) / real ?N))"
      by (simp only: nth)
  qed
  also have "\<dots> = (\<Sum>l<?N. \<Sum>k<?N. xs ! l * cis (2 * pi * real k * (real n - real l) / real ?N))"
    by (rule sum.swap)
  also have "\<dots> = (\<Sum>l<?N. xs ! l * (if l = n then of_nat ?N else 0))"
  proof (rule sum.cong [OF refl])
    fix l assume "l \<in> {..<?N}"
    then have "l < ?N" by simp
    then show "(\<Sum>k<?N. xs ! l * cis (2 * pi * real k * (real n - real l) / real ?N))
        = xs ! l * (if l = n then of_nat ?N else 0)"
      using root_of_unity_sum_diff [OF assms, of l] by (simp add: sum_distrib_left [symmetric])
  qed
  also have "\<dots> = (\<Sum>l<?N. if l = n then xs ! l * of_nat ?N else 0)"
    by (rule sum.cong [OF refl]) simp
  also have "\<dots> = xs ! n * of_nat ?N"
    using assms by (simp add: sum.delta)
  finally show ?thesis using N0 by (simp add: idft_coeff_sum)
qed

subsection \<open>What the round trip returns\<close>

lemma stft_cols:
  assumes "0 < window_size p" "0 < hop_length p" "length (window p) = nat (window_size p)"
    "window_size p \<le> int (length audio)"
  shows "\<exists>m. stft p audio = Inr m \<and> nrows m = nat (window_size p)
           \<and> length (cols m) = nat (num_frames_of p audio)
           \<and> 1 \<le> num_frames_of p audio
           \<and> (\<forall>i<length (cols m). cols m ! i = spec_column p audio i
                 \<and> int i * hop_length p + window_size p \<le> int (length audio))"
proof -
  let ?n = "num_frames_of p audio"
  let ?m0 = "\<lparr>nrows = nat (window_size p),
              cols = replicate (nat ?n) (replicate (nat (window_size p)) (0::complex))\<rparr>"
  have n1: "1 \<le> ?n"
    using assms(2,4) by (simp add: num_frames_of_def pos_imp_zdiv_nonneg_iff)
  have z: "np_zeros2 (window_size p) ?n = Inr ?m0"
    using n1 assms(1) by (simp add: np_zeros2_def)
  have fits: "\<forall>i\<in>set [0..<nat ?n]. i < length (cols ?m0)
                \<and> int i * hop_length p + window_size p \<le> int (length audio)"
  proof
    fix i assume "i \<in> set [0..<nat ?n]"
    then have i: "int i < 1 + (int (length audio) - window_size p) div hop_length p"
      by (simp add: num_frames_of_def)
    show "i < length (cols ?m0) \<and> int i * hop_length p + window_size p \<le> int (length audio)"
      using frame_fits [OF assms(2,4) i] i by (simp add: num_frames_of_def)
  qed
  obtain m' where m': "stft_loop p audio [0..<nat ?n] ?m0 = Inr m'" "nrows m' = nrows ?m0"
    "length (cols m') = length (cols ?m0)"
    "\<forall>i<length (cols ?m0). cols m' ! i =
         (if i \<in> set [0..<nat ?n] then spec_column p audio i else cols ?m0 ! i)"
    using stft_loop_cols [OF assms(1) _ assms(3) _ fits, of] assms(2) by auto
  have res: "stft p audio = Inr m'"
    using assms(2) z m'(1) by (simp add: stft_def Let_def)
  show ?thesis using res m'(2,3,4) n1 fits by auto
qed

lemma nth_spec_frame:
  assumes "0 \<le> hop_length p" "0 \<le> window_size p"
    "int i * hop_length p + window_size p \<le> int (length audio)" "k < nat (window_size p)"
  shows "spec_frame p audio i ! k = audio ! (i * nat (hop_length p) + k)"
proof -
  have eq: "nat (int i * hop_length p) = i * nat (hop_length p)"
    using assms(1) by (simp add: nat_mult_distrib)
  have nn: "0 \<le> int i * hop_length p" using assms(1) by simp
  have "nat (int i * hop_length p) + nat (window_size p) \<le> length audio"
    using nn assms(2,3) by linarith
  then have "i * nat (hop_length p) + k < length audio" using eq assms(4) by simp
  then show ?thesis using assms(4) by (simp add: spec_frame_def)
qed

lemma time_frame_of_spec_column:
  assumes "0 < window_size p" "0 \<le> hop_length p" "length (window p) = nat (window_size p)"
    "int i * hop_length p + window_size p \<le> int (length audio)"
    "cols m ! i = spec_column p audio i" "k < nat (window_size p)"
  shows "spec_time_frame p m i ! k
           = audio ! (i * nat (hop_length p) + k) * (window p ! k)\<^sup>2"
proof -
  define X where "X = map complex_of_real (map2 (*) (spec_frame p audio i) (window p))"
  have lf: "length (spec_frame p audio i) = nat (window_size p)"
    using length_spec_frame [of p i audio] assms by simp
  have lX: "length X = nat (window_size p)" using lf assms(3) by (simp add: X_def)
  have col: "cols m ! i = map (dft_coeff X) [0..<length X]"
    using assms(5) lX by (simp add: spec_column_def X_def)
  have "idft_coeff (cols m ! i) k = X ! k"
    unfolding col using assms(6) lX by (intro idft_dft) simp
  also have "\<dots> = complex_of_real (spec_frame p audio i ! k * window p ! k)"
    using assms(3,6) lf by (simp add: X_def)
  finally have "Re (idft_coeff (cols m ! i) k) = spec_frame p audio i ! k * window p ! k"
    by simp
  then have "spec_time_frame p m i ! k = spec_frame p audio i ! k * window p ! k * window p ! k"
    using assms(3,6) by (simp add: spec_time_frame_def)
  then show ?thesis
    using nth_spec_frame [of p i audio k] assms by (simp add: power2_eq_square)
qed

lemma sum_list_cong_const_mult:
  assumes "\<forall>i\<in>set is. f i = c * g i"
  shows "(\<Sum>i\<leftarrow>is. f i) = c * (\<Sum>i\<leftarrow>is. g i :: real)"
  using assms by (induction "is") (simp_all add: distrib_left)

lemma signal_accum_of_stft:
  assumes "0 < window_size p" "0 \<le> hop_length p" "length (window p) = nat (window_size p)"
    "\<forall>i<length (cols m). cols m ! i = spec_column p audio i
        \<and> int i * hop_length p + window_size p \<le> int (length audio)"
  shows "spec_signal_accum p m j = audio ! j * window_square_accum p (length (cols m)) j"
  unfolding spec_signal_accum_def window_square_accum_def
proof (rule sum_list_cong_const_mult, rule ballI)
  fix i assume "i \<in> set [0..<length (cols m)]"
  then have i: "i < length (cols m)" by simp
  show "(if covers p i j then spec_time_frame p m i ! (j - i * nat (hop_length p)) else 0)
      = audio ! j * (if covers p i j then (window p ! (j - i * nat (hop_length p)))\<^sup>2 else 0)"
  proof (cases "covers p i j")
    case True
    then have k: "j - i * nat (hop_length p) < nat (window_size p)"
      and j: "i * nat (hop_length p) + (j - i * nat (hop_length p)) = j"
      by (auto simp: covers_def)
    show ?thesis
      using time_frame_of_spec_column [OF assms(1-3) _ _ k, of i audio m] assms(4) i True j
      by simp
  next
    case False
    then show ?thesis by simp
  qed
qed

lemma stft_istft_roundtrip:
  assumes "0 < window_size p" "0 < hop_length p" "length (window p) = nat (window_size p)"
    "window_size p \<le> int (length audio)"
  shows "\<exists>m out. stft p audio = Inr m \<and> istft p m = Inr out
           \<and> length (cols m) = nat (num_frames_of p audio)
           \<and> int (length out) = (num_frames_of p audio - 1) * hop_length p + window_size p
           \<and> (\<forall>j<length out. out ! j =
                 audio ! j * window_square_accum p (length (cols m)) j
                   / (if spec_window_energy_accum p m j < 1 / 10 ^ 6 then 1
                      else spec_window_energy_accum p m j))"
proof -
  obtain m where m: "stft p audio = Inr m" "nrows m = nat (window_size p)"
    "length (cols m) = nat (num_frames_of p audio)" "1 \<le> num_frames_of p audio"
    "\<forall>i<length (cols m). cols m ! i = spec_column p audio i
        \<and> int i * hop_length p + window_size p \<le> int (length audio)"
    using stft_cols [OF assms] by blast
  have ne: "cols m \<noteq> []" using m(3,4) by auto
  have h0: "0 \<le> hop_length p" using assms(2) by simp
  have cl: "\<forall>c\<in>set (cols m). length c = nrows m"
  proof
    fix c assume "c \<in> set (cols m)"
    then obtain i where "i < length (cols m)" "c = cols m ! i" by (metis in_set_conv_nth)
    then show "length c = nrows m" using m(2,5) by (simp add: spec_column_def)
  qed
  have rows: "int (nrows m) = window_size p" using m(2) assms(1) by simp
  have cw: "\<forall>c\<in>set (cols m). length c = nat (window_size p)"
    using cl m(2) by simp
  define L where "L = nat (expected_signal_length p m)"
  define acc where "acc = map (spec_signal_accum p m) [0..<L]"
  define ws where "ws = map (spec_window_energy_accum p m) [0..<L]"
  define out where "out = normalize acc ws"
  have "istft_accumulate p m = Inr (acc, ws)"
    using istft_accumulate_ok [OF assms(1) h0 assms(3) ne cw] by (simp add: acc_def ws_def L_def)
  then have o: "istft p m = Inr out" by (simp add: istft_def out_def)
  have lens: "length ws = length acc" "length acc = L" by (simp_all add: acc_def ws_def)
  have lo: "length out = L" using length_normalize [OF lens(1)] lens(2) by (simp add: out_def)
  have L0: "0 \<le> expected_signal_length p m"
    using expected_signal_length_nonneg [of p m] assms(1) h0 ne by simp
  have "out ! j = audio ! j * window_square_accum p (length (cols m)) j
                   / (if spec_window_energy_accum p m j < 1 / 10 ^ 6 then 1
                      else spec_window_energy_accum p m j)" if "j < length out" for j
  proof -
    have j: "j < L" using that lo by simp
    then have "acc ! j = spec_signal_accum p m j" "ws ! j = spec_window_energy_accum p m j"
      by (simp_all add: acc_def ws_def)
    then show ?thesis
      using nth_normalize [OF lens(1), of j] j lens(2)
        signal_accum_of_stft [OF assms(1) h0 assms(3) m(5), of j]
      by (simp add: out_def)
  qed
  moreover have "int (length out) = (num_frames_of p audio - 1) * hop_length p + window_size p"
    using lo L0 m(3,4) by (simp add: L_def expected_signal_length_def)
  ultimately show ?thesis using m(1,3) o by blast
qed

subsection \<open>The hann window with a hop of a quarter window\<close>

lemma sum_four_frames:
  fixes f :: "nat \<Rightarrow> real"
  assumes "r + 3 < n"
  shows "(\<Sum>i\<leftarrow>[0..<n]. if r \<le> i \<and> i \<le> r + 3 then f i else 0)
           = f r + f (r + 1) + f (r + 2) + f (r + 3)"
proof -
  have "(\<Sum>i\<leftarrow>[0..<n]. if r \<le> i \<and> i \<le> r + 3 then f i else 0)
      = (\<Sum>i\<in>{..<n}. if r \<le> i \<and> i \<le> r + 3 then f i else 0)"
    by (simp add: interv_sum_list_conv_sum_set_nat atLeast0LessThan)
  also have "\<dots> = sum f {i \<in> {..<n}. r \<le> i \<and> i \<le> r + 3}"
    by (rule sum.inter_filter [symmetric]) simp
  also have "{i \<in> {..<n}. r \<le> i \<and> i \<le> r + 3} = {r, r + 1, r + 2, r + 3}"
    using assms by auto
  also have "sum f {r, r + 1, r + 2, r + 3} = f r + f (r + 1) + f (r + 2) + f (r + 3)"
    by simp
  finally show ?thesis .
qed

lemma covers_quarter:
  assumes "0 < H" "hop_length p = int H" "window_size p = 4 * int H" "j = (r + 3) * H + k" "k < H"
  shows "covers p i j \<longleftrightarrow> r \<le> i \<and> i \<le> r + 3"
proof -
  have nH: "nat (hop_length p) = H" "nat (window_size p) = 4 * H"
    using assms(2,3) by simp_all
  have "i * H \<le> j \<longleftrightarrow> i \<le> r + 3"
  proof
    assume "i * H \<le> j"
    then have "i * H < (r + 4) * H" using assms(4,5) by (simp add: algebra_simps)
    then have "i < r + 4" using assms(1) by simp
    then show "i \<le> r + 3" by simp
  next
    assume "i \<le> r + 3"
    then have "i * H \<le> (r + 3) * H" by (rule mult_le_mono1)
    then show "i * H \<le> j" unfolding assms(4) by (rule trans_le_add1)
  qed
  moreover have "j < i * H + 4 * H \<longleftrightarrow> r \<le> i"
  proof
    assume "j < i * H + 4 * H"
    then have "(r + 3) * H < (i + 4) * H" using assms(4) by (simp add: algebra_simps)
    then have "r + 3 < i + 4" using assms(1) by simp
    then show "r \<le> i" by simp
  next
    assume "r \<le> i"
    then have "r + 4 \<le> i + 4" by simp
    then have "(r + 4) * H \<le> (i + 4) * H" by (rule mult_le_mono1)
    moreover have "j < (r + 4) * H" using assms(4,5) by (simp add: algebra_simps)
    ultimately have "j < (i + 4) * H" by (rule order.strict_trans2 [rotated])
    then show "j < i * H + 4 * H" by (simp only: add_mult_distrib)
  qed
  ultimately show ?thesis by (auto simp: covers_def nH)
qed

lemma hann_shifted:
  assumes "0 < H"
  shows "window_coeff ''hann'' (4 * int H) (t * H + k)
           = 1 / 2 - 1 / 2 * cos (real t * (pi / 2) + pi * real k / (2 * real H))"
proof -
  have "2 * pi * real (t * H + k) / real_of_int (4 * int H)
          = real t * (pi / 2) + pi * real k / (2 * real H)"
    using assms by (simp add: field_simps)
  then show ?thesis by (simp add: window_coeff_def Let_def)
qed

lemma cos_quarter_turns:
  "cos (real (0::nat) * (pi / 2) + x) = cos x"
  "cos (real (1::nat) * (pi / 2) + x) = - sin x"
  "cos (real (2::nat) * (pi / 2) + x) = - cos x"
  "cos (real (3::nat) * (pi / 2) + x) = sin x"
proof -
  show "cos (real (0::nat) * (pi / 2) + x) = cos x" by simp
  show "cos (real (1::nat) * (pi / 2) + x) = - sin x" by (simp add: cos_add)
  show "cos (real (2::nat) * (pi / 2) + x) = - cos x" by (simp add: cos_add)
  have "real (3::nat) * (pi / 2) + x = pi + (pi / 2 + x)" by simp
  then have "cos (real (3::nat) * (pi / 2) + x) = - cos (pi / 2 + x)"
    by (simp only: cos_periodic_pi2) 
  then show "cos (real (3::nat) * (pi / 2) + x) = sin x" by (simp add: cos_add)
qed

lemma four_squares:
  fixes s c :: real
  assumes "s\<^sup>2 + c\<^sup>2 = 1"
  shows "(1 / 2 - 1 / 2 * s)\<^sup>2 + (1 / 2 - 1 / 2 * (- c))\<^sup>2 + (1 / 2 - 1 / 2 * (- s))\<^sup>2
           + (1 / 2 - 1 / 2 * c)\<^sup>2 = 3 / 2"
proof -
  have "(1 / 2 - 1 / 2 * s)\<^sup>2 + (1 / 2 - 1 / 2 * (- c))\<^sup>2 + (1 / 2 - 1 / 2 * (- s))\<^sup>2
           + (1 / 2 - 1 / 2 * c)\<^sup>2 = 1 + (s\<^sup>2 + c\<^sup>2) / 2"
    by (simp add: power2_eq_square field_simps)
  then show ?thesis using assms by simp
qed

lemma hann_quarter_sums:
  assumes "0 < H" "hop_length p = int H" "window_size p = 4 * int H"
    "window p = map (window_coeff ''hann'' (4 * int H)) [0..<4 * H]"
    "3 * H \<le> j" "j < n * H"
  shows "window_square_accum p n j = 3 / 2"
    and "(\<Sum>i\<leftarrow>[0..<n]. if covers p i j then window p ! (j - i * nat (hop_length p)) else 0) = 2"
proof -
  define q where "q = j div H"
  define k where "k = j mod H"
  define r where "r = q - 3"
  define x where "x = pi * real k / (2 * real H)"
  have kH: "k < H" using assms(1) by (simp add: k_def)
  have jq: "j = q * H + k" by (simp add: q_def k_def)
  have q3: "3 \<le> q"
    using assms(1,5) by (simp add: q_def less_eq_div_iff_mult_less_eq)
  have qn: "q < n"
    using assms(1,6) by (simp add: q_def div_less_iff_less_mult)
  have q: "q = r + 3" using q3 by (simp add: r_def)
  have j: "j = (r + 3) * H + k" using jq q by simp
  have rn: "r + 3 < n" using qn q by simp
  have nH: "nat (hop_length p) = H" using assms(2) by simp
  have cov: "covers p i j \<longleftrightarrow> r \<le> i \<and> i \<le> r + 3" for i
    using covers_quarter [OF assms(1-3) j kH] .
  have off: "j - r * H = 3 * H + k" "j - (r + 1) * H = 2 * H + k"
    "j - (r + 2) * H = 1 * H + k" "j - (r + 3) * H = 0 * H + k"
    using j by (simp_all add: algebra_simps)
  have w: "window p ! (t * H + k) = 1 / 2 - 1 / 2 * cos (real t * (pi / 2) + x)" if "t \<le> 3" for t
  proof -
    have "t * H \<le> 3 * H" using that by (rule mult_le_mono1)
    then have "t * H + k < 4 * H" using kH by linarith
    then show ?thesis
      using hann_shifted [OF assms(1), of t k] by (simp add: assms(4) x_def)
  qed
  have w3: "window p ! (3 * H + k) = 1 / 2 - 1 / 2 * sin x"
    and w2: "window p ! (2 * H + k) = 1 / 2 - 1 / 2 * (- cos x)"
    and w1: "window p ! (1 * H + k) = 1 / 2 - 1 / 2 * (- sin x)"
    and w0: "window p ! (0 * H + k) = 1 / 2 - 1 / 2 * cos x"
    using w [of 3] w [of 2] w [of 1] w [of 0] cos_quarter_turns [of x]
    by simp_all
  have "window_square_accum p n j
      = (\<Sum>i\<leftarrow>[0..<n]. if r \<le> i \<and> i \<le> r + 3 then (window p ! (j - i * H))\<^sup>2 else 0)"
    unfolding window_square_accum_def cov nH by (rule refl)
  also have "\<dots> = (window p ! (j - r * H))\<^sup>2 + (window p ! (j - (r + 1) * H))\<^sup>2
                   + (window p ! (j - (r + 2) * H))\<^sup>2 + (window p ! (j - (r + 3) * H))\<^sup>2"
    using sum_four_frames [OF rn, of "\<lambda>i. (window p ! (j - i * H))\<^sup>2"] by simp
  also have "\<dots> = (1 / 2 - 1 / 2 * sin x)\<^sup>2 + (1 / 2 - 1 / 2 * (- cos x))\<^sup>2
                   + (1 / 2 - 1 / 2 * (- sin x))\<^sup>2 + (1 / 2 - 1 / 2 * cos x)\<^sup>2"
    by (simp only: off w3 w2 w1 w0)
  also have "\<dots> = 3 / 2"
    by (rule four_squares) simp
  finally show "window_square_accum p n j = 3 / 2" .
  have "(\<Sum>i\<leftarrow>[0..<n]. if covers p i j then window p ! (j - i * nat (hop_length p)) else 0)
      = (\<Sum>i\<leftarrow>[0..<n]. if r \<le> i \<and> i \<le> r + 3 then window p ! (j - i * H) else 0)"
    unfolding cov nH by (rule refl)
  also have "\<dots> = window p ! (j - r * H) + window p ! (j - (r + 1) * H)
                   + window p ! (j - (r + 2) * H) + window p ! (j - (r + 3) * H)"
    using sum_four_frames [OF rn, of "\<lambda>i. window p ! (j - i * H)"] by simp
  also have "\<dots> = (1 / 2 - 1 / 2 * sin x) + (1 / 2 - 1 / 2 * (- cos x))
                   + (1 / 2 - 1 / 2 * (- sin x)) + (1 / 2 - 1 / 2 * cos x)"
    by (simp only: off w3 w2 w1 w0)
  also have "\<dots> = 2" by simp
  finally show "(\<Sum>i\<leftarrow>[0..<n]. if covers p i j then window p ! (j - i * nat (hop_length p)) else 0) = 2" .
qed

lemma init_hann_quarter:
  assumes "0 < h" "init (4 * h) h ''hann'' eid today = Inr p"
  shows "hop_length p = int (nat h)" "window_size p = 4 * int (nat h)"
    "window p = map (window_coeff ''hann'' (4 * int (nat h))) [0..<4 * nat h]"
proof -
  have "\<not> 4 * h \<le> 1" "\<not> 4 * h < 0" using assms(1) by simp_all
  then have p: "p = \<lparr>window_size = 4 * h, hop_length = h, window_type = ''hann'',
                     experiment_id = eid, date = today,
                     window = map (window_coeff ''hann'' (4 * h)) [0..<nat (4 * h)]\<rparr>"
    using assms(2)
    by (simp add: init_def get_window_def supported_windows_def signal_get_window_def)
  have n4: "nat (4 * h) = 4 * nat h" using assms(1) by simp
  show "hop_length p = int (nat h)" "window_size p = 4 * int (nat h)"
    "window p = map (window_coeff ''hann'' (4 * int (nat h))) [0..<4 * nat h]"
    using assms(1) by (simp_all add: p n4)
qed

lemma hann_quarter_hop_roundtrip:
  assumes "0 < h" "init (4 * h) h ''hann'' eid today = Inr p" "4 * h \<le> int (length audio)"
  shows "\<exists>m out. stft p audio = Inr m \<and> istft p m = Inr out
           \<and> int (length out) = (num_frames_of p audio - 1) * h + 4 * h
           \<and> (\<forall>j. 3 * nat h \<le> j \<and> j < nat (num_frames_of p audio) * nat h \<longrightarrow>
                  out ! j = 3 / 4 * audio ! j)"
proof -
  define H where "H = nat h"
  have H0: "0 < H" using assms(1) by (simp add: H_def)
  have p: "hop_length p = int H" "window_size p = 4 * int H"
    "window p = map (window_coeff ''hann'' (4 * int H)) [0..<4 * H]"
    using init_hann_quarter [OF assms(1,2)] by (simp_all add: H_def)
  have hh: "int H = h" using assms(1) by (simp add: H_def)
  have pre: "0 < window_size p" "0 < hop_length p" "length (window p) = nat (window_size p)"
    "window_size p \<le> int (length audio)"
    using p H0 assms(3) hh by simp_all
  obtain m out where mo: "stft p audio = Inr m" "istft p m = Inr out"
    "length (cols m) = nat (num_frames_of p audio)"
    "int (length out) = (num_frames_of p audio - 1) * hop_length p + window_size p"
    "\<forall>j<length out. out ! j =
                 audio ! j * window_square_accum p (length (cols m)) j
                   / (if spec_window_energy_accum p m j < 1 / 10 ^ 6 then 1
                      else spec_window_energy_accum p m j)"
    using stft_istft_roundtrip [OF pre] by blast
  have n1: "1 \<le> num_frames_of p audio"
    using pre(2,4) by (simp add: num_frames_of_def pos_imp_zdiv_nonneg_iff)
  have "out ! j = 3 / 4 * audio ! j"
    if j: "3 * H \<le> j" "j < nat (num_frames_of p audio) * H" for j
  proof -
    have "int j < int (nat (num_frames_of p audio)) * int H"
      using j(2) by (metis of_nat_less_iff of_nat_mult)
    then have "int j < num_frames_of p audio * int H" using n1 by simp
    then have "int j < int (length out)"
      using mo(4) p(1,2) by (simp add: algebra_simps)
    then have jl: "j < length out" by simp
    have sq: "window_square_accum p (length (cols m)) j = 3 / 2"
      using hann_quarter_sums(1) [OF H0 p j(1)] j(2) mo(3) by simp
    have en: "spec_window_energy_accum p m j = 2"
      using hann_quarter_sums(2) [OF H0 p j(1)] j(2) mo(3)
      by (simp add: spec_window_energy_accum_def)
    show ?thesis using mo(5) jl sq en by simp
  qed
  then show ?thesis using mo(1,2,4) p(1,2) hh by (auto simp: H_def)
qed

lemma length_ones_signal: "length ones_signal = 1000"
  unfolding ones_signal_def by (rule length_replicate)

lemma nth_ones_signal: "j < 1000 \<Longrightarrow> ones_signal ! j = 1"
  unfolding ones_signal_def by (rule nth_replicate)

lemma rmse_on_const_diff:
  assumes "\<forall>j. lo \<le> j \<and> j \<le> hi \<longrightarrow> a ! j - b ! j = d" "lo \<le> hi" "0 \<le> d"
  shows "rmse_on a b lo hi = d"
proof -
  define xs where "xs = [lo..<hi + 1]"
  have mem: "\<forall>j\<in>set xs. lo \<le> j \<and> j \<le> hi" by (auto simp: xs_def)
  have lxs: "length xs = hi + 1 - lo" unfolding xs_def by (rule length_upt)
  have "map (\<lambda>j. (a ! j - b ! j)\<^sup>2) xs = map (\<lambda>j. d\<^sup>2) xs"
    using assms(1) mem by (intro map_cong [OF refl]) auto
  then have "(\<Sum>j\<leftarrow>xs. (a ! j - b ! j)\<^sup>2) = (\<Sum>j\<leftarrow>xs. d\<^sup>2)"
    by (simp only:)
  also have "\<dots> = real (hi + 1 - lo) * d\<^sup>2"
    by (simp only: sum_list_triv lxs)
  finally have s: "(\<Sum>j\<leftarrow>[lo..<hi + 1]. (a ! j - b ! j)\<^sup>2) = real (hi + 1 - lo) * d\<^sup>2"
    by (simp only: xs_def)
  have "real (hi + 1 - lo) \<noteq> 0" using assms(2) by simp
  then have "real (hi + 1 - lo) * d\<^sup>2 / real (hi + 1 - lo) = d\<^sup>2"
    by (rule nonzero_mult_div_cancel_left)
  then have "rmse_on a b lo hi = sqrt (d\<^sup>2)"
    unfolding rmse_on_def s by (rule arg_cong)
  then show ?thesis using assms(3) by simp
qed

text \<open>
  Claim C1 (the round trip reproduces the signal on interior samples; in particular with
  \<open>window_size = 200\<close>, \<open>hop_length = 50\<close>, hann, on a signal of 1000 samples the error
  on samples 200 to 800 is below \<open>1e-9\<close>). The code does not do this. Each frame is
  multiplied by the window on the way in and again on the way out, but \<open>window_sum\<close>
  accumulates the window itself, not its square: the result at position \<open>j\<close> is the
  sample times the accumulated squared window over the accumulated window (lemma
  \<open>stft_istft_roundtrip\<close>), which for hann with a quarter-window hop is \<open>3/4\<close> at every
  sample covered by four frames (lemma \<open>hann_quarter_hop_roundtrip\<close>). In the claim's own
  configuration the all-ones signal of 1000 samples comes back as \<open>3/4\<close> on the samples
  150 to 849, and the root-mean-square error on samples 200 to 800 is exactly \<open>1/4\<close>.
\<close>

theorem stft_istft_scales_by_three_quarters:
  "\<exists>p m out. init 200 50 ''hann'' 1 ''20240101'' = Inr p
      \<and> stft p ones_signal = Inr m \<and> istft p m = Inr out
      \<and> length out = 1000 \<and> out ! 500 = 3 / 4 \<and> ones_signal ! 500 = 1
      \<and> rmse_on ones_signal out 200 800 = 1 / 4"
proof -
  obtain p where p: "init (4 * 50) 50 ''hann'' 1 ''20240101'' = Inr p"
    by (simp add: init_def get_window_def supported_windows_def signal_get_window_def)
  have cfg: "hop_length p = 50" "window_size p = 200"
    using init_hann_quarter(1,2) [OF _ p] by simp_all
  have nf: "num_frames_of p ones_signal = 17"
    by (simp add: num_frames_of_def cfg length_ones_signal)
  have "4 * 50 \<le> int (length ones_signal)" by (simp add: length_ones_signal)
  then obtain m out where mo: "stft p ones_signal = Inr m" "istft p m = Inr out"
    "int (length out) = (num_frames_of p ones_signal - 1) * 50 + 4 * 50"
    "\<forall>j. 3 * nat 50 \<le> j \<and> j < nat (num_frames_of p ones_signal) * nat 50 \<longrightarrow>
           out ! j = 3 / 4 * ones_signal ! j"
    using hann_quarter_hop_roundtrip [OF _ p, of ones_signal] by auto
  have len: "length out = 1000" using mo(3) nf by simp
  have val: "out ! j = 3 / 4" if "150 \<le> j" "j < 850" for j
  proof -
    have "out ! j = 3 / 4 * ones_signal ! j" using mo(4) that nf by simp
    moreover have "ones_signal ! j = 1" using that by (intro nth_ones_signal) simp
    ultimately show ?thesis by simp
  qed
  have diff: "\<forall>j. 200 \<le> j \<and> j \<le> 800 \<longrightarrow> ones_signal ! j - out ! j = 1 / 4"
  proof (intro allI impI)
    fix j :: nat assume j: "200 \<le> j \<and> j \<le> 800"
    then have "out ! j = 3 / 4" by (intro val) simp_all
    moreover have "ones_signal ! j = 1" using j by (intro nth_ones_signal) simp
    ultimately show "ones_signal ! j - out ! j = 1 / 4" by simp
  qed
  have rm: "rmse_on ones_signal out 200 800 = 1 / 4"
    using diff by (rule rmse_on_const_diff) simp_all
  have o5: "out ! 500 = 3 / 4" by (rule val) simp_all
  have s5: "ones_signal ! 500 = 1" by (rule nth_ones_signal) simp
  have p': "init 200 50 ''hann'' 1 ''20240101'' = Inr p" using p by simp
  show ?thesis using p' mo(1,2) len o5 s5 rm by blast
qed

section \<open>The fidelity metric\<close>

lemma np_sum_squares_nth: "np_sum_squares xs = (\<Sum>i<length xs. (xs ! i)\<^sup>2)"
proof -
  have "np_sum_squares xs = sum_list (map (\<lambda>i. (xs ! i)\<^sup>2) [0..<length xs])"
    unfolding np_sum_squares_def
    by (rule arg_cong [where f = sum_list], rule nth_equalityI) simp_all
  then show ?thesis
    by (simp add: interv_sum_list_conv_sum_set_nat atLeast0LessThan)
qed

lemma signal_energy_take:
  "np_sum_squares (take (min (length a) (length b)) a) = signal_energy a b"
  by (simp add: np_sum_squares_nth signal_energy_def)

lemma noise_energy_take:
  "np_sum_squares (map2 (-) (take (min (length a) (length b)) a) (take (min (length a) (length b)) b))
     = noise_energy a b"
  by (simp add: np_sum_squares_nth noise_energy_def)

lemma energies_nonneg: "0 \<le> signal_energy a b" "0 \<le> noise_energy a b"
  by (simp_all add: signal_energy_def noise_energy_def sum_nonneg)

text \<open>
  Claim C6. \<open>compute_snr\<close> depends only on the first \<open>min(len(original),
  len(reconstructed))\<close> samples of each signal, the noise is their elementwise difference,
  and the result is \<open>10 * log10(sum(original^2) / sum(noise^2))\<close>. When the noise energy
  is exactly zero no error is raised: the result is the non-finite float \<open>inf\<close> (or
  \<open>nan\<close> when the signal energy is zero as well); when only the signal energy is zero
  the logarithm of zero gives \<open>-inf\<close>.
\<close>

theorem compute_snr_formula:
  "compute_snr original reconstructed =
     compute_snr (take (min (length original) (length reconstructed)) original)
                 (take (min (length original) (length reconstructed)) reconstructed)
   \<and> compute_snr original reconstructed =
      (if noise_energy original reconstructed = 0
       then (if signal_energy original reconstructed = 0 then NaN else PosInf)
       else if signal_energy original reconstructed = 0 then NegInf
       else Finite (10 * log 10 (signal_energy original reconstructed
                                   / noise_energy original reconstructed)))"
proof -
  let ?s = "signal_energy original reconstructed" and ?e = "noise_energy original reconstructed"
  have snr: "compute_snr original reconstructed = times_ten (np_log10 (np_true_divide ?s ?e))"
    by (simp add: compute_snr_def Let_def signal_energy_take noise_energy_take)
  have trunc: "compute_snr original reconstructed =
     compute_snr (take (min (length original) (length reconstructed)) original)
                 (take (min (length original) (length reconstructed)) reconstructed)"
    by (simp add: compute_snr_def Let_def min_def)
  have s0: "0 \<le> ?s" and e0: "0 \<le> ?e" by (rule energies_nonneg)+
  have "times_ten (np_log10 (np_true_divide ?s ?e)) =
      (if ?e = 0 then (if ?s = 0 then NaN else PosInf)
       else if ?s = 0 then NegInf
       else Finite (10 * log 10 (?s / ?e)))"
  proof (cases "?e = 0")
    case True
    then show ?thesis using s0 by (simp add: np_true_divide_def)
  next
    case False
    then have "0 < ?e" using e0 by simp
    then show ?thesis using s0 False by (simp add: np_true_divide_def)
  qed
  then show ?thesis using snr trunc by simp
qed

section \<open>The normalisation on float64 values\<close>

lemma overflow_bounds:
  "big_sample < float64_overflow" "float64_overflow \<le> big_sample + big_sample"
  "4 \<le> big_sample"
  by (simp_all add: float64_overflow_def big_sample_def)

lemma upt_4: "[0..<4] = [0, 1, 2, 3]"
  by (simp add: upt_rec)

lemma cos_three_half_pi: "cos (3 * pi / 2) = 0"
  using cos_3over2_pi by (simp add: mult.commute)

lemma init_hann4: "init 4 1 ''hann'' 1 ''20240101'' = Inr hann4"
  by (simp add: init_def get_window_def signal_get_window_def supported_windows_def
      window_coeff_def hann4_def upt_4 cos_three_half_pi)

lemma f64_small: "\<bar>x\<bar> \<le> 4 \<Longrightarrow> f64 x = Finite x"
  using overflow_bounds(1,3) by (auto simp: f64_def)

lemma f64_big: "f64 big_sample = Finite big_sample" "f64 (- big_sample) = Finite (- big_sample)"
  using overflow_bounds(1,3) by (auto simp: f64_def)

lemma f64_double_big: "f64 (big_sample + big_sample) = PosInf"
  using overflow_bounds(2) by (simp only: f64_def if_True)

lemma f64_twice_big: "f64 (2 * big_sample) = PosInf"
  using f64_double_big by (simp only: mult_2)

lemma is_finite_huge: "is_finite (fst huge)" "is_finite (snd huge)"
  using overflow_bounds(1,3) by (simp_all add: huge_def is_finite_def)

lemma idft_f64_huge:
  "idft_f64 [huge, huge] 0 = (PosInf, Finite 0)"
  "idft_f64 [huge, huge] (Suc 0) = (Finite 0, Finite 0)"
proof -
  have m0: "c_mul huge (Finite 1, Finite 0) = huge"
    by (simp add: c_mul_def huge_def f64_small f64_big)
  have m1: "c_mul huge (Finite (- 1), Finite 0) = (Finite (- big_sample), Finite 0)"
    by (simp add: c_mul_def huge_def f64_small f64_big)
  have a0: "c_add (Finite 0, Finite 0) huge = huge"
    by (simp add: c_add_def huge_def f64_small f64_big)
  have a1: "c_add huge huge = (PosInf, Finite 0)"
    by (simp add: c_add_def huge_def f64_small f64_twice_big)
  have a2: "c_add huge (Finite (- big_sample), Finite 0) = (Finite 0, Finite 0)"
    by (simp add: c_add_def huge_def f64_small)
  have s1: "c_scale (1 / 2) (PosInf, Finite 0) = (PosInf, Finite 0)"
    by (simp add: c_scale_def inf_times_def f64_small)
  have s2: "c_scale (1 / 2) (Finite 0, Finite 0) = (Finite 0, Finite 0)"
    by (simp add: c_scale_def f64_small)
  have e: "idft_f64 [huge, huge] n
      = c_scale (1 / 2)
          (c_add (c_add (Finite 0, Finite 0) (c_mul huge (Finite 1, Finite 0)))
             (c_mul huge (Finite (cos (pi * real n)), Finite (sin (pi * real n)))))" for n
    by (simp add: idft_f64_def upt_2)
  show "idft_f64 [huge, huge] 0 = (PosInf, Finite 0)"
    unfolding e by (simp add: m0 a0 a1 s1)
  show "idft_f64 [huge, huge] (Suc 0) = (Finite 0, Finite 0)"
    unfolding e by (simp add: m0 m1 a0 a2 s2)
qed

lemma accumulate_f64_huge:
  "istft_accumulate_f64 hann2 \<lparr>nrows_f64 = 2, cols_f64 = [[huge, huge]]\<rparr>
     = Inr ([NaN, Finite 0], [Finite 0, Finite 1])"
proof -
  have ifft: "np_ifft_f64 [huge, huge] = Inr [(PosInf, Finite 0), (Finite 0, Finite 0)]"
    by (simp add: np_ifft_f64_def upt_2 idft_f64_huge)
  have mul: "np_mul_f64 [PosInf, Finite 0] [Finite 0, Finite 1] = Inr [NaN, Finite 0]"
    by (simp add: np_mul_f64_def inf_times_def f64_small)
  have add1: "np_iadd_slice_f64 [Finite 0, Finite 0] 0 2 [NaN, Finite 0] = Inr [NaN, Finite 0]"
    by (simp add: np_iadd_slice_f64_def slice_bound_def Let_def f64_small)
  have add2: "np_iadd_slice_f64 [Finite 0, Finite 0] 0 2 [Finite 0, Finite 1]
                = Inr [Finite 0, Finite 1]"
    by (simp add: np_iadd_slice_f64_def slice_bound_def Let_def f64_small)
  have z: "np_zeros_f64 2 = Inr [Finite 0, Finite 0]"
    by (simp add: np_zeros_f64_def numeral_2_eq_2)
  show ?thesis
    by (simp add: istft_accumulate_f64_def hann2_def z upt_1 ifft mul add1 add2 Let_def)
qed

text \<open>
  Claim C4 (as stated: for every matrix with finite entries and \<open>window_size\<close> rows, no
  output position where \<open>window_energy_accum\<close> is below \<open>1e-6\<close> is NaN or Inf). On
  \<open>STFTProcessor(2, 1, 'hann')\<close> and the one-column matrix with the two finite entries
  \<open>1.5e308\<close>, the inverse transform adds the entries and overflows to \<open>inf\<close>; the hann
  window is \<open>0\<close> at position 0, and \<open>inf * 0\<close> is NaN. So \<open>signal_accum\<close> is NaN at
  position 0, where \<open>window_energy_accum\<close> is \<open>0\<close>, the divisor is 1 and the output is
  NaN.
\<close>

theorem istft_f64_nan_counterexample:
  "init 2 1 ''hann'' 1 ''20240101'' = Inr hann2
   \<and> is_finite (fst huge) \<and> is_finite (snd huge)
   \<and> istft_accumulate_f64 hann2 \<lparr>nrows_f64 = 2, cols_f64 = [[huge, huge]]\<rparr>
        = Inr ([NaN, Finite 0], [Finite 0, Finite 1])
   \<and> istft_f64 hann2 \<lparr>nrows_f64 = 2, cols_f64 = [[huge, huge]]\<rparr> = Inr [NaN, Finite 0]"
proof -
  have "normalize_f64 [NaN, Finite 0] [Finite 0, Finite 1] = [NaN, Finite 0]"
    by (simp add: normalize_f64_def floor_window_sum_f64_def f64_small)
  then show ?thesis
    using init_hann2 is_finite_huge accumulate_f64_huge by (simp add: istft_f64_def)
qed

lemma length_np_iadd_slice_f64:
  assumes "np_iadd_slice_f64 a s e v = Inr a'"
  shows "length a' = length a"
proof -
  let ?s = "slice_bound s (length a)" and ?e = "slice_bound e (length a)"
  have le: "?s \<le> length a" "?e \<le> length a" by (simp_all add: slice_bound_le)
  then have mid: "length (take (?e - ?s) (drop ?s a)) = ?e - ?s" by simp
  show ?thesis
    using assms le mid
    by (auto simp: np_iadd_slice_f64_def Let_def split: if_splits)
qed

lemma istft_loop_f64_lengths:
  "istft_loop_f64 p m is (out, ws) = Inr (out', ws') \<Longrightarrow>
     length out' = length out \<and> length ws' = length ws"
proof (induction "is" arbitrary: out ws)
  case Nil
  then show ?case by simp
next
  case (Cons i "is")
  then show ?case
    by (auto simp: Let_def split: sum.splits dest!: length_np_iadd_slice_f64)
qed

lemma istft_accumulate_f64_lengths:
  assumes "istft_accumulate_f64 p m = Inr (acc, ws)"
  shows "length ws = length acc"
proof -
  obtain z where l: "istft_loop_f64 p m [0..<length (cols_f64 m)] (z, z) = Inr (acc, ws)"
    using assms by (auto simp: istft_accumulate_f64_def split: sum.splits)
  show ?thesis using istft_loop_f64_lengths [OF l] by simp
qed

lemma is_finite_div_one: "is_finite (f_div x (Finite 1)) = is_finite x"
  by (cases x) (auto simp: is_finite_def f64_def)

lemma nth_normalize_f64:
  assumes "length ws = length acc" "j < length acc"
  shows "normalize_f64 acc ws ! j
           = f_div (acc ! j) (if f_less (ws ! j) (1 / 10 ^ 6) then Finite 1 else ws ! j)"
  using assms by (simp add: normalize_f64_def floor_window_sum_f64_def)

text \<open>
  Claim C4, amended. Once all frames are accumulated, \<open>istft\<close> returns, position by
  position, \<open>signal_accum\<close> divided by \<open>window_energy_accum\<close>, except where
  \<open>window_energy_accum\<close> is below \<open>1e-6\<close>: there the divisor is \<open>1\<close>, and the output is
  finite exactly when the accumulated value \<open>signal_accum\<close> is finite. The division adds
  no NaN or Inf at such a position; an overflow in the inverse transform can already
  have put one into \<open>signal_accum\<close>.
\<close>

theorem istft_f64_normalization:
  assumes "istft_accumulate_f64 p m = Inr (signal_accum, window_energy_accum)"
  shows "\<exists>out. istft_f64 p m = Inr out \<and> length out = length signal_accum
           \<and> length window_energy_accum = length signal_accum
           \<and> (\<forall>j<length out.
                 (f_less (window_energy_accum ! j) (1 / 10 ^ 6) \<longrightarrow>
                     out ! j = f_div (signal_accum ! j) (Finite 1)
                     \<and> is_finite (out ! j) = is_finite (signal_accum ! j))
               \<and> (\<not> f_less (window_energy_accum ! j) (1 / 10 ^ 6) \<longrightarrow>
                     out ! j = f_div (signal_accum ! j) (window_energy_accum ! j)))"
proof -
  let ?out = "normalize_f64 signal_accum window_energy_accum"
  have l: "length window_energy_accum = length signal_accum"
    using istft_accumulate_f64_lengths [OF assms] .
  have res: "istft_f64 p m = Inr ?out"
    using assms by (simp add: istft_f64_def)
  have len: "length ?out = length signal_accum"
    using l by (simp add: normalize_f64_def floor_window_sum_f64_def)
  have "(f_less (window_energy_accum ! j) (1 / 10 ^ 6) \<longrightarrow>
            ?out ! j = f_div (signal_accum ! j) (Finite 1)
            \<and> is_finite (?out ! j) = is_finite (signal_accum ! j))
      \<and> (\<not> f_less (window_energy_accum ! j) (1 / 10 ^ 6) \<longrightarrow>
            ?out ! j = f_div (signal_accum ! j) (window_energy_accum ! j))"
    if "j < length ?out" for j
    using nth_normalize_f64 [OF l, of j] that len by (simp add: is_finite_div_one)
  then show ?thesis using res len l by blast
qed

lemma idft_f64_impulse:
  "idft_f64 [(Finite 4, Finite 0), (Finite 0, Finite 0), (Finite 0, Finite 0), (Finite 0, Finite 0)] n
     = (Finite 1, Finite 0)"
  by (simp add: idft_f64_def upt_4 c_mul_def c_add_def c_scale_def f64_small)

lemma accumulate_f64_impulse:
  "istft_accumulate_f64 hann4
     \<lparr>nrows_f64 = 4, cols_f64 = [[(Finite 4, Finite 0), (Finite 0, Finite 0),
                                  (Finite 0, Finite 0), (Finite 0, Finite 0)]]\<rparr>
     = Inr ([Finite 0, Finite (1 / 2), Finite 1, Finite (1 / 2)],
            [Finite 0, Finite (1 / 2), Finite 1, Finite (1 / 2)])"
proof -
  let ?col = "[(Finite 4, Finite 0), (Finite 0, Finite 0), (Finite 0, Finite 0), (Finite 0, Finite 0)]"
  let ?w = "[Finite 0, Finite (1 / 2), Finite 1, Finite (1 / 2)]"
  let ?z = "[Finite 0, Finite 0, Finite 0, Finite 0]"
  have ifft: "np_ifft_f64 ?col
      = Inr [(Finite 1, Finite 0), (Finite 1, Finite 0), (Finite 1, Finite 0), (Finite 1, Finite 0)]"
    by (simp add: np_ifft_f64_def upt_4 idft_f64_impulse)
  have mul: "np_mul_f64 [Finite 1, Finite 1, Finite 1, Finite 1] ?w = Inr ?w"
    by (simp add: np_mul_f64_def f64_small)
  have add: "np_iadd_slice_f64 ?z 0 4 ?w = Inr ?w"
    by (simp add: np_iadd_slice_f64_def slice_bound_def Let_def f64_small)
  have z: "np_zeros_f64 4 = Inr ?z"
    by (simp add: np_zeros_f64_def eval_nat_numeral)
  show ?thesis
    by (simp add: istft_accumulate_f64_def hann4_def z upt_1 ifft mul add Let_def)
qed

theorem istft_f64_normalization_witness:
  "\<exists>out. istft_f64 hann4
            \<lparr>nrows_f64 = 4, cols_f64 = [[(Finite 4, Finite 0), (Finite 0, Finite 0),
                                         (Finite 0, Finite 0), (Finite 0, Finite 0)]]\<rparr> = Inr out
         \<and> length out = 4 \<and> out ! 0 = Finite 0 \<and> out ! 1 = Finite 1"
  using istft_f64_normalization [OF accumulate_f64_impulse]
  by (auto simp: f64_small)

end
